theory Spec2Isabelle
  imports Complex_Main "HOL-Library.Word" "HOL-Library.Sublist"
begin

section \<open>Dynamic values\<close>

text \<open>
  The program handles decoded documents as Go values of type \<^verbatim>\<open>interface{}\<close>.
  The datatype \<open>val\<close> lists the dynamic types that the decoders, the tests and the
  transformers of the repository produce:
  \<^item> \<open>VNil\<close> is the nil interface value (no dynamic type);
  \<^item> \<open>VSlice\<close> is \<^verbatim>\<open>[]interface{}\<close>, \<open>VStrSlice\<close> is \<^verbatim>\<open>[]string\<close> (the record list of the
    text adapter) and \<open>VMapSlice\<close> is \<^verbatim>\<open>[]map[string]interface{}\<close> (an array of tables of
    the TOML decoder); \<open>None\<close> is the nil slice, \<open>Some []\<close> an empty slice with storage;
  \<^item> \<open>VMap\<close> is a Go map with dynamic keys and values, kept as an association list;
    \<open>None\<close> is the nil map. The static key and element types of a map are not kept:
    the maps of the decoders hold \<^verbatim>\<open>interface{}\<close> values, and the map of maps of the INI
    adapter only ever gets back values of the type it holds;
  \<^item> \<open>VPtr\<close>, \<open>VFunc\<close> and \<open>VChan\<close> are reference values (\<open>None\<close> is nil), known by an
    address only.
  A float is modelled by the number it denotes, so that widening a 32-bit float
  to 64 bits keeps the payload.
  Values are trees: two places of a document never share storage.
\<close>

datatype float = Finite rat | NegZero | PosInf | NegInf | NaN

datatype val =
    VNil
  | VBool bool
  | VInt "64 word"
  | VInt64 "64 word"
  | VFloat64 float
  | VFloat32 float
  | VComplex128 float float
  | VComplex64 float float
  | VString string
  | VSlice "val list option"
  | VStrSlice "string list option"
  | VMapSlice "(val \<times> val) list option list option"
  | VMap "(val \<times> val) list option"
  | VPtr "nat option"
  | VFunc "nat option"
  | VChan "nat option"

text \<open>The kinds of \<^verbatim>\<open>reflect.Kind\<close> that the program distinguishes.\<close>

datatype kind =
    KBool | KInt | KInt64 | KFloat64 | KFloat32 | KComplex128 | KComplex64 | KString
  | KSlice | KArray | KMap | KPtr | KFunc | KChan | KInterface | KStruct

text \<open>\<^verbatim>\<open>reflect.TypeOf(value)\<close> followed by \<^verbatim>\<open>Kind()\<close>; \<open>None\<close> is the nil type of the nil interface.\<close>

fun TypeOf_Kind :: "val \<Rightarrow> kind option" where
  "TypeOf_Kind VNil = None"
| "TypeOf_Kind (VBool b) = Some KBool"
| "TypeOf_Kind (VInt i) = Some KInt"
| "TypeOf_Kind (VInt64 i) = Some KInt64"
| "TypeOf_Kind (VFloat64 f) = Some KFloat64"
| "TypeOf_Kind (VFloat32 f) = Some KFloat32"
| "TypeOf_Kind (VComplex128 r i) = Some KComplex128"
| "TypeOf_Kind (VComplex64 r i) = Some KComplex64"
| "TypeOf_Kind (VString s) = Some KString"
| "TypeOf_Kind (VSlice xs) = Some KSlice"
| "TypeOf_Kind (VStrSlice xs) = Some KSlice"
| "TypeOf_Kind (VMapSlice xs) = Some KSlice"
| "TypeOf_Kind (VMap m) = Some KMap"
| "TypeOf_Kind (VPtr p) = Some KPtr"
| "TypeOf_Kind (VFunc p) = Some KFunc"
| "TypeOf_Kind (VChan p) = Some KChan"

text \<open>\<^verbatim>\<open>reflect.ValueOf(value).IsNil()\<close>, on the kinds for which \<open>isNil\<close> calls it.\<close>

fun ValueOf_IsNil :: "val \<Rightarrow> bool" where
  "ValueOf_IsNil (VSlice xs) = (xs = None)"
| "ValueOf_IsNil (VStrSlice xs) = (xs = None)"
| "ValueOf_IsNil (VMapSlice xs) = (xs = None)"
| "ValueOf_IsNil (VMap m) = (m = None)"
| "ValueOf_IsNil (VPtr p) = (p = None)"
| "ValueOf_IsNil (VFunc p) = (p = None)"
| "ValueOf_IsNil (VChan p) = (p = None)"
| "ValueOf_IsNil v = False"

text \<open>
  \<^verbatim>\<open>
  func isNil(value interface{}) bool {
      vtype := reflect.TypeOf(value)
      if vtype == nil { return true }
      switch vtype.Kind() {
      case reflect.Slice, reflect.Map, reflect.Ptr, reflect.Chan, reflect.Func, reflect.Interface:
          if reflect.ValueOf(value).IsNil() { return true }
      }
      return false
  }
  \<close>
\<close>

definition isNil :: "val \<Rightarrow> bool" where
  "isNil v =
     (case TypeOf_Kind v of
        None \<Rightarrow> True
      | Some k \<Rightarrow>
          if k \<in> {KSlice, KMap, KPtr, KChan, KFunc, KInterface} then
            (if ValueOf_IsNil v then True else False)
          else False)"

section \<open>Results of calls\<close>

text \<open>
  A Go function of the program returns a value together with an error (\<open>None\<close> is the
  nil error), or it panics; a panic that nobody recovers ends the process.
\<close>

datatype error = ErrSyntax | ErrRange | Errorf string

datatype panic = TypeAssertionPanic | ZeroValuePanic | IndexOutOfRangePanic

datatype 'a outcome = Return 'a "error option" | Panic panic

section \<open>The transformation engine\<close>

text \<open>
  \<^verbatim>\<open>
  type callingTransformer struct {
      stringTransformer     StringConverter
      float64Transformer    Float64Converter
      complex128Transformer Complex128Converter
      sliceSelector         SliceSelector
      kvSelector            KeyValueSelector
  }
  \<close>
\<close>

record callingTransformer =
  stringTransformer :: "string \<Rightarrow> val"
  float64Transformer :: "float \<Rightarrow> val"
  complex128Transformer :: "float \<times> float \<Rightarrow> val"
  sliceSelector :: "val \<Rightarrow> bool"
  kvSelector :: "val \<Rightarrow> val \<Rightarrow> bool"

subsection \<open>The two loops of \<open>transformSlice\<close>\<close>

text \<open>
  The first loop of \<open>transformSlice\<close>, with the recursive call as the parameter \<open>f\<close>:
  \<^verbatim>\<open>
  for n := 0; n < len(data); n++ {
      d, err := t.transformInterface(data[n])
      if err != nil { return data, err }
      data[n] = d
  }
  \<close>
\<close>

function transformSlice_convert ::
  "(val \<Rightarrow> val outcome) \<Rightarrow> nat \<Rightarrow> val list \<Rightarrow> val list outcome" where
  "transformSlice_convert f n data =
     (if n < length data then
        (case f (data ! n) of
           Panic p \<Rightarrow> Panic p
         | Return d (Some err) \<Rightarrow> Return data (Some err)
         | Return d None \<Rightarrow> transformSlice_convert f (n + 1) (data[n := d]))
      else Return data None)"
  by pat_completeness auto
termination
  by (relation "measure (\<lambda>(f, n, data). length data - n)") auto

declare transformSlice_convert.simps [simp del]

text \<open>
  The second loop of \<open>transformSlice\<close>. The slice expressions \<^verbatim>\<open>data[1:]\<close>, \<^verbatim>\<open>data[:n]\<close> and
  \<^verbatim>\<open>append(data[:n], data[n+1:]...)\<close> are \<open>drop 1\<close>, \<open>take n\<close> and \<open>take n @ drop (n + 1)\<close>;
  the index is an \<open>int\<close>, since \<^verbatim>\<open>n--\<close> takes it to \<open>-1\<close> before \<^verbatim>\<open>n++\<close>; reading
  \<^verbatim>\<open>data[n]\<close> at a negative index is the run-time panic of Go.
  \<^verbatim>\<open>
  for n := 0; n < len(data); n++ {
      if !t.sliceSelector(data[n]) {
          if n == 0 {
              data = data[1:]
          } else if n == (len(data) - 1) {
              data = data[:n]
          } else {
              data = append(data[:n], data[n+1:]...)
          }
          n--
      }
  }
  \<close>
\<close>

function transformSlice_select ::
  "(val \<Rightarrow> bool) \<Rightarrow> int \<Rightarrow> val list \<Rightarrow> val list outcome" where
  "transformSlice_select sel n data =
     (if n < int (length data) then
        (if n < 0 then Panic IndexOutOfRangePanic
         else if \<not> sel (data ! nat n) then
           transformSlice_select sel ((n - 1) + 1)
             (if n = 0 then drop 1 data
              else if n = int (length data) - 1 then take (nat n) data
              else take (nat n) data @ drop (nat n + 1) data)
         else transformSlice_select sel (n + 1) data)
      else Return data None)"
  by pat_completeness auto
termination
proof (relation "measure (\<lambda>(sel, n, data). nat (int (length data) - n))")
  fix sel :: "val \<Rightarrow> bool" and n :: int and data :: "val list"
  assume "n < int (length data)" "\<not> n < 0"
  then have "length (if n = 0 then drop 1 data
              else if n = int (length data) - 1 then take (nat n) data
              else take (nat n) data @ drop (nat n + 1) data) = length data - 1"
    by auto
  with \<open>n < int (length data)\<close> \<open>\<not> n < 0\<close>
  show "((sel, n - 1 + 1,
          if n = 0 then drop 1 data
          else if n = int (length data) - 1 then take (nat n) data
          else take (nat n) data @ drop (nat n + 1) data), sel, n, data)
        \<in> measure (\<lambda>(sel, n, data). nat (int (length data) - n))"
    by simp
qed auto

declare transformSlice_select.simps [simp del]

subsection \<open>The two loops of \<open>transformMap\<close>\<close>

text \<open>
  A map is an association list whose keys are pairwise unequal for the \<^verbatim>\<open>==\<close> of Go (of an
  association list that repeats a key, the first entry with the key counts). Two keys
  are equal when they have the same dynamic type and equal values; two floats are equal
  when they are the same number, \<open>+0\<close> and \<open>-0\<close> are equal, and a NaN is equal to nothing,
  not even to itself.
\<close>

definition float_equal :: "float \<Rightarrow> float \<Rightarrow> bool" where
  "float_equal x y =
     (x \<noteq> NaN \<and> y \<noteq> NaN \<and>
      (x = y \<or> (x = NegZero \<and> y = Finite 0) \<or> (x = Finite 0 \<and> y = NegZero)))"

fun key_equal :: "val \<Rightarrow> val \<Rightarrow> bool" where
  "key_equal (VFloat64 x) k = (case k of VFloat64 y \<Rightarrow> float_equal x y | _ \<Rightarrow> False)"
| "key_equal (VFloat32 x) k = (case k of VFloat32 y \<Rightarrow> float_equal x y | _ \<Rightarrow> False)"
| "key_equal (VComplex128 re im) k =
     (case k of VComplex128 re' im' \<Rightarrow> float_equal re re' \<and> float_equal im im' | _ \<Rightarrow> False)"
| "key_equal (VComplex64 re im) k =
     (case k of VComplex64 re' im' \<Rightarrow> float_equal re re' \<and> float_equal im im' | _ \<Rightarrow> False)"
| "key_equal k k' = (k = k')"

abbreviation unequal_keys :: "val list \<Rightarrow> bool" where
  "unequal_keys \<equiv> sorted_wrt (\<lambda>k k'. \<not> key_equal k k')"

text \<open>
  \<^verbatim>\<open>MapIndex\<close> returns the value of the entry whose key is equal to the given key, and the
  zero \<^verbatim>\<open>reflect.Value\<close> (\<open>None\<close>) when the map has no such entry: so for every NaN key, also
  one that \<^verbatim>\<open>MapKeys\<close> has just returned. \<^verbatim>\<open>Interface()\<close> panics on the zero value.
  \<^verbatim>\<open>reflect.ValueOf(d)\<close> of the nil interface is the zero value, and \<^verbatim>\<open>SetMapIndex\<close> with the
  zero value deletes the key; with any other value it stores the value under the key (a
  new entry when the map has no equal key). \<^verbatim>\<open>MapKeys\<close> returns the key of every entry.
\<close>

fun ValueOf :: "val \<Rightarrow> val option" where
  "ValueOf VNil = None"
| "ValueOf v = Some v"

fun MapIndex :: "(val \<times> val) list \<Rightarrow> val \<Rightarrow> val option" where
  "MapIndex [] k = None"
| "MapIndex ((k', v) # m) k = (if key_equal k' k then Some v else MapIndex m k)"

fun SetMapIndex :: "(val \<times> val) list \<Rightarrow> val \<Rightarrow> val option \<Rightarrow> (val \<times> val) list" where
  "SetMapIndex m k None = filter (\<lambda>(k', v'). \<not> key_equal k' k) m"
| "SetMapIndex m k (Some v) =
     (case MapIndex m k of
        None \<Rightarrow> m @ [(k, v)]
      | Some old \<Rightarrow> map (\<lambda>(k', v'). if key_equal k' k then (k, v) else (k', v')) m)"

fun MapKeys :: "(val \<times> val) list \<Rightarrow> val list" where
  "MapKeys [] = []"
| "MapKeys ((k, v) # m) = k # filter (\<lambda>k'. \<not> key_equal k k') (MapKeys m)"

text \<open>
  The first loop of \<open>transformMap\<close>, over the snapshot \<open>keys\<close>, with the recursive call as
  the parameter \<open>f\<close>:
  \<^verbatim>\<open>
  keys := data.MapKeys()
  for _, k := range keys {
      if isNil(data.MapIndex(k).Interface()) {
          continue // do not remove nil values here by accident
      }
      d, err := t.transformInterface(data.MapIndex(k).Interface())
      if err != nil { return data.Interface(), err }
      data.SetMapIndex(k, reflect.ValueOf(d))
  }
  \<close>
\<close>

fun transformMap_convert_loop ::
  "(val \<Rightarrow> val outcome) \<Rightarrow> val list \<Rightarrow> (val \<times> val) list \<Rightarrow> (val \<times> val) list outcome" where
  "transformMap_convert_loop f [] data = Return data None"
| "transformMap_convert_loop f (k # keys) data =
     (case MapIndex data k of
        None \<Rightarrow> Panic ZeroValuePanic
      | Some v \<Rightarrow>
          if isNil v then transformMap_convert_loop f keys data
          else
            (case f v of
               Panic p \<Rightarrow> Panic p
             | Return d (Some err) \<Rightarrow> Return data (Some err)
             | Return d None \<Rightarrow>
                 transformMap_convert_loop f keys (SetMapIndex data k (ValueOf d))))"

definition transformMap_convert ::
  "(val \<Rightarrow> val outcome) \<Rightarrow> (val \<times> val) list \<Rightarrow> (val \<times> val) list outcome" where
  "transformMap_convert f data = transformMap_convert_loop f (MapKeys data) data"

text \<open>
  The second loop of \<open>transformMap\<close>:
  \<^verbatim>\<open>
  for _, k := range data.MapKeys() {
      v := data.MapIndex(k)
      if !t.kvSelector(k.Interface(), v.Interface()) {
          data.SetMapIndex(k, reflect.Value{})
      }
  }
  \<close>
\<close>

fun transformMap_select ::
  "(val \<Rightarrow> val \<Rightarrow> bool) \<Rightarrow> val list \<Rightarrow> (val \<times> val) list \<Rightarrow> (val \<times> val) list outcome" where
  "transformMap_select sel [] data = Return data None"
| "transformMap_select sel (k # keys) data =
     (case MapIndex data k of
        None \<Rightarrow> Panic ZeroValuePanic
      | Some v \<Rightarrow>
          if \<not> sel k v then transformMap_select sel keys (SetMapIndex data k None)
          else transformMap_select sel keys data)"

subsection \<open>The loops call \<open>f\<close> on values of the input only\<close>

text \<open>
  The first loops read every position before they write it, so the function they call
  is applied to values of the input only. These two rules let the recursive definition
  of \<open>transformInterface\<close> go through the loops.
\<close>

lemma transformSlice_convert_cong [fundef_cong]:
  assumes "n = n'" "data = data'" "\<And>x. x \<in> set (drop n' data') \<Longrightarrow> f x = g x"
  shows "transformSlice_convert f n data = transformSlice_convert g n' data'"
proof -
  have "(\<forall>x \<in> set (drop n data). f x = g x) \<Longrightarrow>
        transformSlice_convert f n data = transformSlice_convert g n data"
  proof (induction f n data rule: transformSlice_convert.induct)
    case (1 f n data)
    show ?case
    proof (cases "n < length data")
      case False
      then show ?thesis by (simp add: transformSlice_convert.simps)
    next
      case True
      then have mem: "data ! n \<in> set (drop n data)"
        by (metis Cons_nth_drop_Suc list.set_intros(1))
      with "1.prems" have fg: "f (data ! n) = g (data ! n)" by blast
      have sub: "set (drop (n + 1) (data[n := d])) \<subseteq> set (drop n data)" for d
        by (metis Suc_eq_plus1 drop_update_cancel lessI set_drop_subset_set_drop le_add1)
      show ?thesis
      proof (cases "g (data ! n)")
        case (Panic p)
        with True fg show ?thesis
          by (simp add: transformSlice_convert.simps [of _ n data])
      next
        case (Return d e)
        show ?thesis
        proof (cases e)
          case (Some err)
          with Return True fg show ?thesis
            by (simp add: transformSlice_convert.simps [of _ n data])
        next
          case None
          have "transformSlice_convert f (n + 1) (data[n := d]) =
                transformSlice_convert g (n + 1) (data[n := d])"
            using "1.IH" [OF True _ _] Return None fg "1.prems" sub by (metis subsetD)
          with Return None True fg show ?thesis
            by (simp add: transformSlice_convert.simps [of _ n data])
        qed
      qed
    qed
  qed
  with assms show ?thesis by simp
qed

lemma float_equal_sym: "float_equal x y \<Longrightarrow> float_equal y x"
  by (auto simp: float_equal_def)

lemma float_equal_trans: "float_equal x y \<Longrightarrow> float_equal y z \<Longrightarrow> float_equal x z"
  by (auto simp: float_equal_def)

lemma key_equal_cases:
  "key_equal a b \<longleftrightarrow>
     (\<exists>x y. a = VFloat64 x \<and> b = VFloat64 y \<and> float_equal x y)
   \<or> (\<exists>x y. a = VFloat32 x \<and> b = VFloat32 y \<and> float_equal x y)
   \<or> (\<exists>x y x' y'. a = VComplex128 x y \<and> b = VComplex128 x' y'
         \<and> float_equal x x' \<and> float_equal y y')
   \<or> (\<exists>x y x' y'. a = VComplex64 x y \<and> b = VComplex64 x' y'
         \<and> float_equal x x' \<and> float_equal y y')
   \<or> ((\<forall>x. a \<noteq> VFloat64 x) \<and> (\<forall>x. a \<noteq> VFloat32 x) \<and> (\<forall>x y. a \<noteq> VComplex128 x y)
        \<and> (\<forall>x y. a \<noteq> VComplex64 x y) \<and> a = b)"
  by (cases a) (auto split: val.splits)

lemma key_equal_sym: "key_equal a b \<Longrightarrow> key_equal b a"
  unfolding key_equal_cases by (auto dest: float_equal_sym)

lemma key_equal_trans: "key_equal a b \<Longrightarrow> key_equal b c \<Longrightarrow> key_equal a c"
  unfolding key_equal_cases by (auto dest: float_equal_trans)

lemma key_equal_other: "key_equal a k \<Longrightarrow> \<not> key_equal k k' \<Longrightarrow> \<not> key_equal a k'"
  by (meson key_equal_sym key_equal_trans)

lemma MapIndex_SomeD: "MapIndex m k = Some v \<Longrightarrow> \<exists>k'. (k', v) \<in> set m \<and> key_equal k' k"
  by (induction m) (auto split: if_splits)

lemma MapIndex_Some_self: "MapIndex m k = Some v \<Longrightarrow> key_equal k k"
  by (meson MapIndex_SomeD key_equal_sym key_equal_trans)

lemma MapIndex_filter_other:
  "\<not> key_equal k k' \<Longrightarrow>
   MapIndex (filter (\<lambda>(k'', v). \<not> key_equal k'' k) m) k' = MapIndex m k'"
  by (induction m) (auto simp: key_equal_other)

lemma MapIndex_map_other:
  "\<not> key_equal k k' \<Longrightarrow>
   MapIndex (map (\<lambda>(k'', v'). if key_equal k'' k then (k, v) else (k'', v')) m) k' =
   MapIndex m k'"
  by (induction m) (auto simp: key_equal_other)

lemma MapIndex_append:
  "MapIndex (m1 @ m2) k = (case MapIndex m1 k of None \<Rightarrow> MapIndex m2 k | Some v \<Rightarrow> Some v)"
  by (induction m1) auto

lemma MapIndex_SetMapIndex_other:
  "\<not> key_equal k k' \<Longrightarrow> MapIndex (SetMapIndex m k e) k' = MapIndex m k'"
  by (cases e)
    (simp_all add: MapIndex_filter_other MapIndex_map_other MapIndex_append split: option.splits)

lemma MapKeys_subset: "set (MapKeys m) \<subseteq> fst ` set m"
  by (induction m rule: MapKeys.induct) auto

lemma MapKeys_unequal: "unequal_keys (MapKeys m)"
  by (induction m rule: MapKeys.induct) (auto simp: sorted_wrt_filter)

lemma transformMap_convert_loop_agree:
  assumes "unequal_keys keys"
    and "\<forall>k \<in> set keys. MapIndex data k = MapIndex m k"
    and "\<forall>v \<in> snd ` set m. f v = g v"
  shows "transformMap_convert_loop f keys data = transformMap_convert_loop g keys data"
  using assms
proof (induction keys arbitrary: data)
  case Nil
  then show ?case by simp
next
  case (Cons k keys)
  show ?case
  proof (cases "MapIndex data k")
    case None
    then show ?thesis by simp
  next
    case (Some v)
    with Cons.prems have "MapIndex m k = Some v" by simp
    then have "v \<in> snd ` set m" by (metis MapIndex_SomeD snd_conv imageI)
    with Cons.prems have fg: "f v = g v" by blast
    have rest: "transformMap_convert_loop f keys data' = transformMap_convert_loop g keys data'"
      if "\<forall>k' \<in> set keys. MapIndex data' k' = MapIndex data k'" for data'
      using Cons.IH [of data'] Cons.prems that by simp
    have upd: "\<forall>k' \<in> set keys. MapIndex (SetMapIndex data k e) k' = MapIndex data k'" for e
      using Cons.prems(1) by (auto intro!: MapIndex_SetMapIndex_other)
    show ?thesis
      using Some fg rest [OF upd] rest [of data]
      by (simp split: outcome.splits option.splits)
  qed
qed

lemma transformMap_convert_cong [fundef_cong]:
  assumes "data = data'" "\<And>v. v \<in> snd ` set data' \<Longrightarrow> f v = g v"
  shows "transformMap_convert f data = transformMap_convert g data'"
  unfolding transformMap_convert_def assms(1)
  by (rule transformMap_convert_loop_agree [where m = data'])
    (simp_all add: MapKeys_unequal assms(2))

subsection \<open>The recursive walk\<close>

text \<open>
  \<^verbatim>\<open>
  func (t callingTransformer) transformInterface(data interface{}) (interface{}, error) {
      switch d := data.(type) {
      case string:     return t.stringTransformer(d), nil
      case float64:    return t.float64Transformer(d), nil
      case float32:    return t.float64Transformer(float64(d)), nil
      case complex128: return t.complex128Transformer(d), nil
      case complex64:  return t.complex128Transformer(complex128(d)), nil
      default:
          if isNil(data) { return nil, nil }
          itype := reflect.TypeOf(data)
          switch itype.Kind() {
          case reflect.Map:
              return t.transformMap(reflect.ValueOf(data))
          case reflect.Slice, reflect.Array:
              return t.transformSlice(data.([]interface{}))
          default:
              return data, nil
          }
      }
  }
  \<close>
  The type assertion \<^verbatim>\<open>data.([]interface{})\<close> has no second result, so it panics on
  every value whose dynamic type is not \<^verbatim>\<open>[]interface{}\<close>.
  \<open>transformMap\<close> and \<open>transformSlice\<close> run their two loops one after the other;
  \<open>transformMap\<close> starts with the check of the kind, \<open>transformSlice\<close> with the nil check.
\<close>

fun transformInterface :: "callingTransformer \<Rightarrow> val \<Rightarrow> val outcome"
  and transformMap :: "callingTransformer \<Rightarrow> val \<Rightarrow> val outcome"
  and transformSlice :: "callingTransformer \<Rightarrow> val list option \<Rightarrow> val outcome" where
  "transformInterface t (VString d) = Return (stringTransformer t d) None"
| "transformInterface t (VFloat64 d) = Return (float64Transformer t d) None"
| "transformInterface t (VFloat32 d) = Return (float64Transformer t d) None"
| "transformInterface t (VComplex128 re im) = Return (complex128Transformer t (re, im)) None"
| "transformInterface t (VComplex64 re im) = Return (complex128Transformer t (re, im)) None"
| "transformInterface t data =
     (if isNil data then Return VNil None
      else
        (case TypeOf_Kind data of
           Some KMap \<Rightarrow> transformMap t data
         | Some KSlice \<Rightarrow>
             (case data of VSlice xs \<Rightarrow> transformSlice t xs | _ \<Rightarrow> Panic TypeAssertionPanic)
         | Some KArray \<Rightarrow>
             (case data of VSlice xs \<Rightarrow> transformSlice t xs | _ \<Rightarrow> Panic TypeAssertionPanic)
         | _ \<Rightarrow> Return data None))"
| "transformMap t (VMap (Some m)) =
     (case transformMap_convert (transformInterface t) m of
        Panic p \<Rightarrow> Panic p
      | Return data (Some err) \<Rightarrow> Return (VMap (Some data)) (Some err)
      | Return data None \<Rightarrow>
          (case transformMap_select (kvSelector t) (MapKeys data) data of
             Panic p \<Rightarrow> Panic p
           | Return data' e \<Rightarrow> Return (VMap (Some data')) e))"
| "transformMap t (VMap None) = Return (VMap None) None"
| "transformMap t data =
     Return VNil
       (Some (Errorf ''transformMap was unexpectedly invoked on something other than a map''))"
| "transformSlice t None = Return (VSlice None) None"
| "transformSlice t (Some xs) =
     (case transformSlice_convert (transformInterface t) 0 xs of
        Panic p \<Rightarrow> Panic p
      | Return data (Some err) \<Rightarrow> Return (VSlice (Some data)) (Some err)
      | Return data None \<Rightarrow>
          (case transformSlice_select (sliceSelector t) 0 data of
             Panic p \<Rightarrow> Panic p
           | Return data' e \<Rightarrow> Return (VSlice (Some data')) e))"

text \<open>
  \<^verbatim>\<open>
  func (t callingTransformer) Transform(data interface{}) (interface{}, error) {
      if data == nil { return data, nil }
      return t.transformInterface(data)
  }
  func (t NopTransformer) Transform(data interface{}) (interface{}, error) {
      return data, nil
  }
  \<close>
\<close>

definition callingTransformer_Transform :: "callingTransformer \<Rightarrow> val \<Rightarrow> val outcome" where
  "callingTransformer_Transform t data =
     (if data = VNil then Return data None else transformInterface t data)"

definition NopTransformer_Transform :: "val \<Rightarrow> val outcome" where
  "NopTransformer_Transform data = Return data None"

text \<open>
  \<open>NewConfigurableTransformer\<close>: a nil converter or selector is \<open>None\<close>. With five nil
  arguments the result is the no-op transformer; otherwise each nil slot gets the
  identity converter or the selector that keeps everything. The identity converter of
  floats returns a \<^verbatim>\<open>float64\<close>, the one of complex numbers a \<^verbatim>\<open>complex128\<close>.
\<close>

definition NewConfigurableTransformer ::
  "(string \<Rightarrow> val) option \<Rightarrow> (float \<Rightarrow> val) option \<Rightarrow> (float \<times> float \<Rightarrow> val) option \<Rightarrow>
   (val \<Rightarrow> bool) option \<Rightarrow> (val \<Rightarrow> val \<Rightarrow> bool) option \<Rightarrow> val \<Rightarrow> val outcome" where
  "NewConfigurableTransformer s f c es kv =
     (if s = None \<and> f = None \<and> c = None \<and> es = None \<and> kv = None then NopTransformer_Transform
      else callingTransformer_Transform
        \<lparr> stringTransformer = (case s of None \<Rightarrow> (\<lambda>s. VString s) | Some s' \<Rightarrow> s'),
          float64Transformer = (case f of None \<Rightarrow> (\<lambda>f. VFloat64 f) | Some f' \<Rightarrow> f'),
          complex128Transformer =
            (case c of None \<Rightarrow> (\<lambda>(re, im). VComplex128 re im) | Some c' \<Rightarrow> c'),
          sliceSelector = (case es of None \<Rightarrow> (\<lambda>element. True) | Some es' \<Rightarrow> es'),
          kvSelector = (case kv of None \<Rightarrow> (\<lambda>key value. True) | Some kv' \<Rightarrow> kv') \<rparr>)"

text \<open>The stock selectors.\<close>

definition NonNilElementSelector :: "val \<Rightarrow> bool" where
  "NonNilElementSelector element = (\<not> isNil element)"

definition NonNilKeySelector :: "val \<Rightarrow> val \<Rightarrow> bool" where
  "NonNilKeySelector key v = (\<not> isNil key)"

definition NonNilValueSelector :: "val \<Rightarrow> val \<Rightarrow> bool" where
  "NonNilValueSelector key v = (\<not> isNil v)"

definition NonNilKeyValueSelector :: "val \<Rightarrow> val \<Rightarrow> bool" where
  "NonNilKeyValueSelector key v = (\<not> isNil key \<and> \<not> isNil v)"

text \<open>
  \<^verbatim>\<open>
  func (t NilRemovalTransformer) Transform(data interface{}) (interface{}, error) {
      if data == nil { return data, nil }
      var sliceSelector SliceSelector
      if t.RemoveNilElements { sliceSelector = NonNilElementSelector } else { sliceSelector = nil }
      var kvSelector KeyValueSelector
      if t.RemoveNilKeys && t.RemoveNilValues { kvSelector = NonNilKeyValueSelector
      } else if t.RemoveNilKeys { kvSelector = NonNilKeySelector
      } else if t.RemoveNilValues { kvSelector = NonNilValueSelector
      } else { kvSelector = nil }
      cTransformer := NewConfigurableTransformer(nil, nil, nil, sliceSelector, kvSelector)
      return cTransformer.Transform(data)
  }
  \<close>
\<close>

record NilRemovalTransformer =
  RemoveNilKeys :: bool
  RemoveNilValues :: bool
  RemoveNilElements :: bool

definition NilRemovalTransformer_Transform :: "NilRemovalTransformer \<Rightarrow> val \<Rightarrow> val outcome" where
  "NilRemovalTransformer_Transform t data =
     (if data = VNil then Return data None
      else
        (let sliceSelector = (if RemoveNilElements t then Some NonNilElementSelector else None);
             kvSelector =
               (if RemoveNilKeys t \<and> RemoveNilValues t then Some NonNilKeyValueSelector
                else if RemoveNilKeys t then Some NonNilKeySelector
                else if RemoveNilValues t then Some NonNilValueSelector
                else None)
         in NewConfigurableTransformer None None None sliceSelector kvSelector data))"

section \<open>The transformer pipeline\<close>

text \<open>
  A \<^verbatim>\<open>Transformer\<close> is any implementation of the interface; it may act on a state \<open>'s\<close>
  outside the value (the stages of the program are pure). A nil slot is \<open>None\<close>.
  \<^verbatim>\<open>
  func (m TransformerPipeline) Transform(value interface{}) (interface{}, error) {
      var err error
      for _, t := range m.Transformers {
          if t == nil { continue }
          value, err = t.Transform(value)
          if err != nil { return value, err }
      }
      return value, nil
  }
  \<close>
\<close>

type_synonym 's Transformer = "val \<Rightarrow> 's \<Rightarrow> val outcome \<times> 's"

fun TransformerPipeline_Transform ::
  "'s Transformer option list \<Rightarrow> val \<Rightarrow> 's \<Rightarrow> val outcome \<times> 's" where
  "TransformerPipeline_Transform [] v \<sigma> = (Return v None, \<sigma>)"
| "TransformerPipeline_Transform (None # ts) v \<sigma> = TransformerPipeline_Transform ts v \<sigma>"
| "TransformerPipeline_Transform (Some t # ts) v \<sigma> =
     (case t v \<sigma> of
        (Panic p, \<sigma>') \<Rightarrow> (Panic p, \<sigma>')
      | (Return v' (Some err), \<sigma>') \<Rightarrow> (Return v' (Some err), \<sigma>')
      | (Return v' None, \<sigma>') \<Rightarrow> TransformerPipeline_Transform ts v' \<sigma>')"

text \<open>
  \<^verbatim>\<open>
  func NewMultiTransformer(transformers ...Transformer) Transformer {
      var transformer TransformerPipeline = TransformerPipeline{
          Transformers: make([]Transformer, 0),
      }
      for _, t := range transformers {
          if t != nil {
              transformer.Transformers = append(transformer.Transformers, t)
          }
      }
      return transformer
  }
  \<close>
\<close>

definition NewMultiTransformer :: "'s Transformer option list \<Rightarrow> 's Transformer" where
  "NewMultiTransformer transformers =
     TransformerPipeline_Transform
       (foldl (\<lambda>Transformers t. if t \<noteq> None then Transformers @ [t] else Transformers)
          [] transformers)"

section \<open>The delimited-text adapter\<close>

text \<open>
  \<^verbatim>\<open>strings.Index\<close> and \<^verbatim>\<open>strings.Split\<close> of the Go library on byte strings: \<open>Index\<close> is the
  position of the first occurrence; \<open>Split\<close> cuts at the occurrences of a non-empty
  separator from left to right, and an empty separator cuts after every character
  (every byte here; the program never passes the empty separator).
\<close>

fun Index :: "string \<Rightarrow> string \<Rightarrow> nat option" where
  "Index [] substr = (if substr = [] then Some 0 else None)"
| "Index (c # cs) substr =
     (if prefix substr (c # cs) then Some 0 else map_option Suc (Index cs substr))"

lemma Index_bound: "Index s substr = Some m \<Longrightarrow> m + length substr \<le> length s"
proof (induction s arbitrary: m)
  case Nil
  then show ?case by (simp split: if_splits)
next
  case (Cons c cs)
  show ?case
  proof (cases "prefix substr (c # cs)")
    case True
    then have "length substr \<le> length (c # cs)" by (rule prefix_length_le)
    with Cons.prems True show ?thesis by simp
  next
    case False
    with Cons.prems obtain m' where "Index cs substr = Some m'" "m = Suc m'" by auto
    with Cons.IH show ?thesis by simp
  qed
qed

function Split :: "string \<Rightarrow> string \<Rightarrow> string list" where
  "Split s sep =
     (if sep = [] then map (\<lambda>c. [c]) s
      else
        (case Index s sep of
           None \<Rightarrow> [s]
         | Some m \<Rightarrow> take m s # Split (drop (m + length sep) s) sep))"
  by pat_completeness auto
termination
proof (relation "measure (\<lambda>(s, sep). length s)")
  fix s sep :: string and m :: nat
  assume "sep \<noteq> []" "Index s sep = Some m"
  then have "m + length sep \<le> length s" "0 < length sep"
    by (simp_all add: Index_bound)
  then have "length s - (m + length sep) < length s" by linarith
  then show "((drop (m + length sep) s, sep), s, sep) \<in> measure (\<lambda>(s, sep). length s)"
    by simp
qed simp

declare Split.simps [simp del]

text \<open>
  \<^verbatim>\<open>
  func readSeparatedStrings(data []byte, separator string) []string {
      return strings.Split(string(data), separator)
  }
  func readLines(data []byte) ([]string, error) {
      reader := bytes.NewReader(data)
      scanner := bufio.NewScanner(reader)
      var lines []string
      for scanner.Scan() { lines = append(lines, scanner.Text()) }
      return lines, scanner.Err()
  }
  \<close>
  The line scanner of the library is the parameter \<open>scanner\<close>: the tokens it yields and
  its final error. \<open>lines\<close> starts as the nil slice, and \<open>append\<close> gives it storage.
\<close>

definition readSeparatedStrings :: "string \<Rightarrow> string \<Rightarrow> string list" where
  "readSeparatedStrings data separator = Split data separator"

fun go_append :: "'a list option \<Rightarrow> 'a \<Rightarrow> 'a list option" where
  "go_append None x = Some [x]"
| "go_append (Some xs) x = Some (xs @ [x])"

definition readLines ::
  "(string \<Rightarrow> string list \<times> error option) \<Rightarrow> string \<Rightarrow> string list option \<times> error option" where
  "readLines scanner data =
     (case scanner data of (tokens, err) \<Rightarrow> (foldl go_append None tokens, err))"

text \<open>
  \<open>TextFormat.Unmarshal\<close>; the reader is given by what \<^verbatim>\<open>ioutil.ReadAll\<close> returns for it.
  \<open>TextFormat_records\<close> is the part that computes \<open>records\<close> and \<open>err\<close>:
  \<^verbatim>\<open>
  var records []string
  if f.RecordDelimiter == "" {
      records, err = readLines(bytes)
  } else {
      records = readSeparatedStrings(bytes, f.RecordDelimiter)
      if len(records) > 0 {
          if len(records[len(records)-1]) == 0 {
              records = records[0 : len(records)-1]
          }
      }
      err = nil
  }
  if err != nil { return nil, err }
  if f.FieldDelimiter == "" { return records, nil }
  var data []interface{} = make([]interface{}, 0, len(records))
  for _, record := range records {
      fields := readSeparatedStrings([]byte(record), f.FieldDelimiter)
      parsedFields := make([]interface{}, len(fields))
      for f, s := range fields { parsedFields[f] = s }
      data = append(data, parsedFields)
  }
  return data, nil
  \<close>
\<close>

record TextFormat =
  RecordDelimiter :: string
  FieldDelimiter :: string

definition TextFormat_records ::
  "(string \<Rightarrow> string list \<times> error option) \<Rightarrow> TextFormat \<Rightarrow> string \<Rightarrow>
   string list option \<times> error option" where
  "TextFormat_records scanner f bytes =
     (if RecordDelimiter f = [] then readLines scanner bytes
      else
        (let records = readSeparatedStrings bytes (RecordDelimiter f);
             records =
               (if length records > 0 then
                  (if length (records ! (length records - 1)) = 0
                   then take (length records - 1) records else records)
                else records)
         in (Some records, None)))"

definition TextFormat_Unmarshal ::
  "(string \<Rightarrow> string list \<times> error option) \<Rightarrow> TextFormat \<Rightarrow> string \<times> error option \<Rightarrow>
   val outcome" where
  "TextFormat_Unmarshal scanner f reader =
     (case reader of
        (bytes, Some err) \<Rightarrow> Return VNil (Some err)
      | (bytes, None) \<Rightarrow>
          (case TextFormat_records scanner f bytes of
             (records, Some err) \<Rightarrow> Return VNil (Some err)
           | (records, None) \<Rightarrow>
               if FieldDelimiter f = [] then Return (VStrSlice records) None
               else
                 Return (VSlice (Some
                   (map (\<lambda>record. VSlice (Some (map VString
                           (readSeparatedStrings record (FieldDelimiter f)))))
                      (case records of None \<Rightarrow> [] | Some rs \<Rightarrow> rs)))) None))"

section \<open>The YAML adapter\<close>

text \<open>
  The YAML decoder of the library is given by the results of its \<^verbatim>\<open>Decode\<close> calls, in
  order: \<open>Decoded (Some v)\<close> stores the document \<open>v\<close> in the target and returns no error,
  \<open>Decoded None\<close> returns no error and leaves the target as it is (an empty document),
  \<open>DecodeFailed\<close> returns an error other than \<^verbatim>\<open>io.EOF\<close>; after the last step the decoder
  returns \<^verbatim>\<open>io.EOF\<close>.
  \<^verbatim>\<open>
  func (f YAMLFormat) Unmarshal(reader io.Reader) (interface{}, error) {
      decoder := yaml.NewDecoder(reader)
      var documents []interface{} = make([]interface{}, 0)
      for {
          var document interface{}
          err := decoder.Decode(&document)
          if err != nil {
              if errors.Is(err, io.EOF) { break } else { return nil, err }
          }
          documents = append(documents, document)
      }
      if len(documents) == 1 { return documents[0], nil } else { return documents, nil }
  }
  \<close>
\<close>

datatype decode_step = Decoded "val option" | DecodeFailed error

fun YAMLFormat_decode_loop :: "decode_step list \<Rightarrow> val list \<Rightarrow> val list outcome" where
  "YAMLFormat_decode_loop [] documents = Return documents None"
| "YAMLFormat_decode_loop (DecodeFailed err # steps) documents = Return documents (Some err)"
| "YAMLFormat_decode_loop (Decoded d # steps) documents =
     YAMLFormat_decode_loop steps
       (documents @ [case d of None \<Rightarrow> VNil | Some document \<Rightarrow> document])"

definition YAMLFormat_Unmarshal :: "decode_step list \<Rightarrow> val outcome" where
  "YAMLFormat_Unmarshal decoder =
     (case YAMLFormat_decode_loop decoder [] of
        Panic p \<Rightarrow> Panic p
      | Return documents (Some err) \<Rightarrow> Return VNil (Some err)
      | Return documents None \<Rightarrow>
          if length documents = 1 then Return (documents ! 0) None
          else Return (VSlice (Some documents)) None)"

section \<open>Exit codes\<close>

text \<open>
  \<^verbatim>\<open>
  const (
      exitNoError            int = 0
      exitInputError         int = 1
      exitOutputError        int = 2
      exitTransformError     int = 4
      exitConfigurationError int = 32
  )
  \<close>
\<close>

definition exitNoError :: int where "exitNoError = 0"
definition exitInputError :: int where "exitInputError = 1"
definition exitOutputError :: int where "exitOutputError = 2"
definition exitTransformError :: int where "exitTransformError = 4"
definition exitConfigurationError :: int where "exitConfigurationError = 32"

definition exitMessages :: "int \<rightharpoonup> string" where
  "exitMessages =
     [exitNoError \<mapsto> [],
      exitInputError \<mapsto> ''input error: could not read the data or unmarshal'',
      exitOutputError \<mapsto> ''output error: could not marshal or write the data'',
      exitTransformError \<mapsto>
        ''transform error: could not transform the data according to the arguments provided'',
      exitConfigurationError \<mapsto> ''configuration error'']"

text \<open>
  \<open>exit\<close> writes the message (the default message of the code when it is empty) to the
  standard error and ends the process with the code.
\<close>

record exited =
  stderr :: string
  status :: int

definition exit :: "int \<Rightarrow> string \<Rightarrow> exited" where
  "exit code message =
     (let message =
            (if message = [] then
               (case exitMessages code of None \<Rightarrow> ''runtime error'' | Some msg \<Rightarrow> msg)
             else message)
      in \<lparr> stderr = (if message \<noteq> [] then message @ [CHR 0x0A] else []), status = code \<rparr>)"

fun Error :: "error \<Rightarrow> string" where
  "Error ErrSyntax = ''invalid syntax''"
| "Error ErrRange = ''value out of range''"
| "Error (Errorf message) = message"

text \<open>
  \<open>ConvertStream\<close> and \<open>ConvertFile\<close>; the formats, the transformer and the files are
  parameters. An empty file name or \<open>-\<close> is the standard input or output.
  \<^verbatim>\<open>
  data, err := informat.Unmarshal(reader)
  if err != nil { return err }
  var transformed interface{}
  if transformer != nil {
      transformed, err = transformer.Transform(data)
      if err != nil { return err }
  } else {
      transformed = data
  }
  return outformat.Marshal(transformed, writer)
  \<close>
\<close>

definition ConvertStream ::
  "'r \<Rightarrow> ('r \<Rightarrow> val outcome) \<Rightarrow> (val \<Rightarrow> val outcome) option \<Rightarrow> 'w \<Rightarrow>
   (val \<Rightarrow> 'w \<Rightarrow> unit outcome) \<Rightarrow> unit outcome" where
  "ConvertStream reader informat transformer writer outformat =
     (case informat reader of
        Panic p \<Rightarrow> Panic p
      | Return data (Some err) \<Rightarrow> Return () (Some err)
      | Return data None \<Rightarrow>
          (case transformer of
             Some t \<Rightarrow>
               (case t data of
                  Panic p \<Rightarrow> Panic p
                | Return transformed (Some err) \<Rightarrow> Return () (Some err)
                | Return transformed None \<Rightarrow> outformat transformed writer)
           | None \<Rightarrow> outformat data writer))"

record ('r, 'w) files =
  Stdin :: 'r
  Stdout :: 'w
  OpenFile_RDONLY :: "string \<Rightarrow> error + 'r"
  OpenFile_WRONLY_CREATE :: "string \<Rightarrow> error + 'w"

definition ConvertFile ::
  "('r, 'w) files \<Rightarrow> string \<Rightarrow> ('r \<Rightarrow> val outcome) \<Rightarrow> (val \<Rightarrow> val outcome) option \<Rightarrow>
   string \<Rightarrow> (val \<Rightarrow> 'w \<Rightarrow> unit outcome) \<Rightarrow> unit outcome" where
  "ConvertFile os infile informat transformer outfile outformat =
     (case (if infile = [] \<or> infile = ''-'' then Inr (Stdin os) else OpenFile_RDONLY os infile) of
        Inl err \<Rightarrow> Return () (Some err)
      | Inr reader \<Rightarrow>
          (case (if outfile = [] \<or> outfile = ''-'' then Inr (Stdout os)
                 else OpenFile_WRONLY_CREATE os outfile) of
             Inl err \<Rightarrow> Return () (Some err)
           | Inr writer \<Rightarrow> ConvertStream reader informat transformer writer outformat))"

text \<open>
  The action of the \<open>convert\<close> command, after the formats are configured:
  \<^verbatim>\<open>
  err := ConvertFile(input, inputFormat, transformer, output, outputFormat)
  if err != nil { exit(exitTransformError, err.Error()) }
  \<close>
  The process ends by \<open>exit\<close>, by returning from the action (status 0), or by a panic
  (the Go runtime ends the process with status 2).
\<close>

datatype process_end = Exit exited | Finished | Crashed panic

fun exit_status :: "process_end \<Rightarrow> int" where
  "exit_status (Exit e) = status e"
| "exit_status Finished = 0"
| "exit_status (Crashed p) = 2"

definition convert_Action ::
  "('r, 'w) files \<Rightarrow> string \<Rightarrow> ('r \<Rightarrow> val outcome) \<Rightarrow> (val \<Rightarrow> val outcome) option \<Rightarrow>
   string \<Rightarrow> (val \<Rightarrow> 'w \<Rightarrow> unit outcome) \<Rightarrow> process_end" where
  "convert_Action os input inputFormat transformer output outputFormat =
     (case ConvertFile os input inputFormat transformer output outputFormat of
        Panic p \<Rightarrow> Crashed p
      | Return u (Some err) \<Rightarrow> Exit (exit exitTransformError (Error err))
      | Return u None \<Rightarrow> Finished)"

section \<open>The number parser\<close>

text \<open>
  \<^verbatim>\<open>strconv.ParseInt(s, 10, bitSize)\<close> of the Go library: an optional sign, then
  \<^verbatim>\<open>ParseUint\<close> on the digits, then the check against the signed range. \<open>ParseUint\<close> reads
  the digits from left to right and stops with a syntax error at the first byte that is
  not a decimal digit, with a range error as soon as the number exceeds the largest
  value of the bit size.
\<close>

definition is_digit :: "char \<Rightarrow> bool" where
  "is_digit c = (48 \<le> (of_char c :: nat) \<and> (of_char c :: nat) \<le> 57)"

definition digit_value :: "char \<Rightarrow> nat" where
  "digit_value c = of_char c - 48"

fun ParseUint_loop :: "nat \<Rightarrow> string \<Rightarrow> nat \<Rightarrow> nat \<times> error option" where
  "ParseUint_loop maxVal [] n = (n, None)"
| "ParseUint_loop maxVal (c # cs) n =
     (if \<not> is_digit c then (0, Some ErrSyntax)
      else
        (let n1 = n * 10 + digit_value c
         in if n1 > maxVal then (maxVal, Some ErrRange)
            else ParseUint_loop maxVal cs n1))"

definition ParseUint :: "string \<Rightarrow> int \<Rightarrow> nat \<times> error option" where
  "ParseUint s bitSize =
     (if s = [] then (0, Some ErrSyntax)
      else
        (let bitSize = (if bitSize = 0 then 64 else bitSize)
         in if bitSize < 0 \<or> bitSize > 64 then (0, Some (Errorf ''invalid bit size''))
            else ParseUint_loop (2 ^ nat bitSize - 1) s 0))"

definition ParseInt :: "string \<Rightarrow> int \<Rightarrow> int \<times> error option" where
  "ParseInt s bitSize =
     (case s of
        [] \<Rightarrow> (0, Some ErrSyntax)
      | c # cs \<Rightarrow>
          (let neg = (c = CHR ''-'');
               s' = (if c = CHR ''+'' \<or> c = CHR ''-'' then cs else s)
           in case ParseUint s' bitSize of
                (un, err) \<Rightarrow>
                  if err \<noteq> None \<and> err \<noteq> Some ErrRange then (0, err)
                  else
                    (let bitSize = (if bitSize = 0 then 64 else bitSize);
                         cutoff = 2 ^ nat (bitSize - 1)
                     in if \<not> neg \<and> un \<ge> cutoff then (int cutoff - 1, Some ErrRange)
                        else if neg \<and> un > cutoff then (- int cutoff, Some ErrRange)
                        else (if neg then - int un else int un, None))))"

text \<open>
  \<^verbatim>\<open>math.IsInf\<close> and \<^verbatim>\<open>math.IsNaN\<close>. \<^verbatim>\<open>strconv.ParseFloat\<close> stays a parameter of the parser:
  the float and the error that the library returns for a string and a bit size.
  \<^verbatim>\<open>
  func CustomStringNumberParser(s string, intbits int, floatbits int, finiteOnly bool) interface{} {
      if s == "" { return s }
      i, err := strconv.ParseInt(s, 10, intbits)
      if err == nil { return i }
      f, err := strconv.ParseFloat(s, floatbits)
      if err != nil {
          return s
      } else if !finiteOnly {
          return f
      } else if !(math.IsInf(f, 0) || math.IsNaN(f)) {
          return f
      } else {
          return s
      }
  }
  \<close>
\<close>

definition IsInf :: "float \<Rightarrow> int \<Rightarrow> bool" where
  "IsInf f sign = (sign \<ge> 0 \<and> f = PosInf \<or> sign \<le> 0 \<and> f = NegInf)"

definition IsNaN :: "float \<Rightarrow> bool" where
  "IsNaN f = (f = NaN)"

definition CustomStringNumberParser ::
  "(string \<Rightarrow> int \<Rightarrow> float \<times> error option) \<Rightarrow> string \<Rightarrow> int \<Rightarrow> int \<Rightarrow> bool \<Rightarrow> val" where
  "CustomStringNumberParser ParseFloat s intbits floatbits finiteOnly =
     (if s = [] then VString s
      else
        (case ParseInt s intbits of
           (i, None) \<Rightarrow> VInt64 (word_of_int i)
         | (i, Some err) \<Rightarrow>
             (case ParseFloat s floatbits of
                (f, Some err) \<Rightarrow> VString s
              | (f, None) \<Rightarrow>
                  if \<not> finiteOnly then VFloat64 f
                  else if \<not> (IsInf f 0 \<or> IsNaN f) then VFloat64 f
                  else VString s)))"

definition StringToFiniteNumberParser ::
  "(string \<Rightarrow> int \<Rightarrow> float \<times> error option) \<Rightarrow> string \<Rightarrow> val" where
  "StringToFiniteNumberParser ParseFloat s = CustomStringNumberParser ParseFloat s 64 64 True"

section \<open>Notions for the statements\<close>

text \<open>
  The definitions of this section are not code of the program: they are the functions
  and predicates in which the properties below are stated.
\<close>

subsection \<open>The loops as functions on lists\<close>

text \<open>
  The first loop as a function on the list: the elements are converted from left to
  right; a panic of \<open>f\<close> ends the walk, an error of \<open>f\<close> returns the list as far as it
  was converted, with the element that failed and the ones after it unchanged.
\<close>

fun convert_elements :: "(val \<Rightarrow> val outcome) \<Rightarrow> val list \<Rightarrow> val list outcome" where
  "convert_elements f [] = Return [] None"
| "convert_elements f (x # xs) =
     (case f x of
        Panic p \<Rightarrow> Panic p
      | Return d (Some err) \<Rightarrow> Return (x # xs) (Some err)
      | Return d None \<Rightarrow>
          (case convert_elements f xs of
             Panic p \<Rightarrow> Panic p
           | Return ys e \<Rightarrow> Return (d # ys) e))"

text \<open>
  The first loop as a function on the entries of a map that finds all its keys again: an
  entry with a nil value is skipped, an entry whose converted value is the nil interface
  is deleted (\<open>SetMapIndex\<close> with the zero value), every other entry gets the converted
  value.
\<close>

fun convert_entries ::
  "(val \<Rightarrow> val outcome) \<Rightarrow> (val \<times> val) list \<Rightarrow> (val \<times> val) list outcome" where
  "convert_entries f [] = Return [] None"
| "convert_entries f ((k, v) # m) =
     (if isNil v then
        (case convert_entries f m of
           Panic p \<Rightarrow> Panic p
         | Return m' e \<Rightarrow> Return ((k, v) # m') e)
      else
        (case f v of
           Panic p \<Rightarrow> Panic p
         | Return d (Some err) \<Rightarrow> Return ((k, v) # m) (Some err)
         | Return d None \<Rightarrow>
             (case convert_entries f m of
                Panic p \<Rightarrow> Panic p
              | Return m' e \<Rightarrow>
                  Return ((case ValueOf d of None \<Rightarrow> [] | Some d' \<Rightarrow> [(k, d')]) @ m') e)))"

subsection \<open>Values of the data model\<close>

text \<open>
  \<open>wellformed\<close>: the association lists of the value are maps of Go. Every key is
  hashable, and no two entries have equal keys (two NaN keys are not equal, so a map may
  hold several).
\<close>

fun hashable :: "val \<Rightarrow> bool" where
  "hashable (VSlice xs) = False"
| "hashable (VStrSlice xs) = False"
| "hashable (VMapSlice xs) = False"
| "hashable (VMap m) = False"
| "hashable (VFunc p) = False"
| "hashable k = True"

fun wellformed :: "val \<Rightarrow> bool" where
  "wellformed (VSlice (Some xs)) = list_all wellformed xs"
| "wellformed (VMap (Some m)) =
     (unequal_keys (map fst m) \<and> list_all (\<lambda>(k, v). hashable k \<and> wellformed v) m)"
| "wellformed v = True"

text \<open>
  \<open>generic\<close>: every list with storage that the walk reaches (the value itself, the
  elements of a list, the values of a map) is a \<^verbatim>\<open>[]interface{}\<close>, the representation of
  the data model's lists, not a slice of another element type; and every key of a map
  that the walk reaches is equal to itself (it is not a NaN).
\<close>

fun generic :: "val \<Rightarrow> bool" where
  "generic (VStrSlice xs) = (xs = None)"
| "generic (VMapSlice xs) = (xs = None)"
| "generic (VSlice (Some xs)) = list_all generic xs"
| "generic (VMap (Some m)) = list_all (\<lambda>(k, v). key_equal k k \<and> generic v) m"
| "generic v = True"

text \<open>The keys of a map on which both loops of \<open>transformMap\<close> find every key again.\<close>

definition found_keys :: "(val \<times> val) list \<Rightarrow> bool" where
  "found_keys m = (unequal_keys (map fst m) \<and> list_all (\<lambda>k. key_equal k k) (map fst m))"

subsection \<open>The walk with identity converters\<close>

text \<open>
  What the walk returns when the converters are the identity ones (the transformer of
  \<open>NilRemovalTransformer\<close>), as a function of the value: floats and complex numbers are
  widened, a nil reference becomes the nil interface, lists and maps are converted and
  filtered. An entry of a map with a nil value is left as it is.
\<close>

fun nil_removed :: "(val \<Rightarrow> bool) \<Rightarrow> (val \<Rightarrow> val \<Rightarrow> bool) \<Rightarrow> val \<Rightarrow> val" where
  "nil_removed es kv (VFloat32 f) = VFloat64 f"
| "nil_removed es kv (VComplex64 re im) = VComplex128 re im"
| "nil_removed es kv (VSlice (Some xs)) = VSlice (Some (filter es (map (nil_removed es kv) xs)))"
| "nil_removed es kv (VMap (Some m)) =
     VMap (Some (filter (\<lambda>(k, v). kv k v)
       (map (\<lambda>(k, v). (k, if isNil v then v else nil_removed es kv v)) m)))"
| "nil_removed es kv v = (if isNil v then VNil else v)"

definition identity_converters :: "(val \<Rightarrow> bool) \<Rightarrow> (val \<Rightarrow> val \<Rightarrow> bool) \<Rightarrow> callingTransformer" where
  "identity_converters es kv =
     \<lparr> stringTransformer = (\<lambda>s. VString s), float64Transformer = (\<lambda>f. VFloat64 f),
       complex128Transformer = (\<lambda>(re, im). VComplex128 re im),
       sliceSelector = es, kvSelector = kv \<rparr>"

text \<open>The selectors that \<open>NilRemovalTransformer.Transform\<close> chooses.\<close>

definition element_selector_of :: "NilRemovalTransformer \<Rightarrow> val \<Rightarrow> bool" where
  "element_selector_of t =
     (if RemoveNilElements t then NonNilElementSelector else (\<lambda>element. True))"

definition pair_selector_of :: "NilRemovalTransformer \<Rightarrow> val \<Rightarrow> val \<Rightarrow> bool" where
  "pair_selector_of t =
     (if RemoveNilKeys t \<and> RemoveNilValues t then NonNilKeyValueSelector
      else if RemoveNilKeys t then NonNilKeySelector
      else if RemoveNilValues t then NonNilValueSelector
      else (\<lambda>key value. True))"

subsection \<open>Documents, decimal integers and sample stages\<close>

text \<open>The document that a successful step leaves in the fresh variable \<open>document\<close>.\<close>

fun document_of :: "val option \<Rightarrow> val" where
  "document_of None = VNil"
| "document_of (Some document) = document"

text \<open>
  The words of the specification, "parses as a base-10 signed integer within 64 bits":
  an optional sign, at least one digit, only digits, and a value from \<open>-2^63\<close> to
  \<open>2^63 - 1\<close>. \<open>ParseInt\<close> with bit size 64 accepts exactly these strings
  (\<open>ParseInt_decimal_int64\<close>).
\<close>

definition decimal_value :: "string \<Rightarrow> nat" where
  "decimal_value ds = foldl (\<lambda>n c. n * 10 + digit_value c) 0 ds"

definition decimal_int64 :: "string \<Rightarrow> int option" where
  "decimal_int64 s =
     (let neg = (s \<noteq> [] \<and> hd s = CHR ''-'');
          ds = (if s \<noteq> [] \<and> (hd s = CHR ''+'' \<or> hd s = CHR ''-'') then tl s else s);
          i = (if neg then - int (decimal_value ds) else int (decimal_value ds))
      in if ds \<noteq> [] \<and> list_all is_digit ds \<and> - (2 ^ 63) \<le> i \<and> i < 2 ^ 63 then Some i else None)"

text \<open>
  A stage for the witness: it applies \<open>f\<close> and writes its name to a trace of the calls.
\<close>

definition logging_stage :: "string \<Rightarrow> (val \<Rightarrow> val outcome) \<Rightarrow> string list Transformer" where
  "logging_stage name f v trace = (f v, trace @ [name])"

text \<open>
  For the witness: the results of \<^verbatim>\<open>strconv.ParseFloat\<close> on the five strings (the float of
  \<open>"1E-05"\<close> is the double next to it).
\<close>

definition sample_ParseFloat :: "string \<Rightarrow> int \<Rightarrow> float \<times> error option" where
  "sample_ParseFloat s bitSize =
     (if s = ''2.5'' then (Finite (5 / 2), None)
      else if s = ''1E-05'' then (Finite (5902958103587057 / 590295810358705651712), None)
      else if s = ''NaN'' then (NaN, None)
      else if s = ''Infinity'' then (PosInf, None)
      else if s = ''-Inf'' then (NegInf, None)
      else (Finite 0, Some ErrSyntax))"

section \<open>What the loops compute\<close>

subsection \<open>The loops of \<open>transformSlice\<close>\<close>

text \<open>
  The second loop keeps the elements before the index and filters the rest; started at
  index 0 it is \<open>filter\<close>. No index leaves the range, and no element is skipped.
\<close>

lemma transformSlice_select_filter_nat:
  "i \<le> length data \<Longrightarrow>
   transformSlice_select sel (int i) data = Return (take i data @ filter sel (drop i data)) None"
proof (induction sel "int i" data arbitrary: i rule: transformSlice_select.induct)
  case (1 sel data i)
  show ?case
  proof (cases "i < length data")
    case False
    with "1.prems" show ?thesis by (subst transformSlice_select.simps) simp
  next
    case True
    have dr: "drop i data = data ! i # drop (Suc i) data"
      using True by (simp add: Cons_nth_drop_Suc)
    show ?thesis
    proof (cases "sel (data ! i)")
      case True
      have "transformSlice_select sel (int (Suc i)) data =
            Return (take (Suc i) data @ filter sel (drop (Suc i) data)) None"
        using "1.hyps"(2) [of "Suc i"] \<open>i < length data\<close> True by simp
      then show ?thesis
        using True \<open>i < length data\<close> dr
        by (subst transformSlice_select.simps) (simp add: take_Suc_conv_app_nth add.commute)
    next
      case False
      let ?d = "(if int i = 0 then drop 1 data
              else if int i = int (length data) - 1 then take (nat (int i)) data
              else take (nat (int i)) data @ drop (nat (int i) + 1) data)"
      have c: "(int i = int (length data) - 1) \<longleftrightarrow> (Suc i = length data)"
        by linarith
      have d: "?d = take i data @ drop (Suc i) data"
        unfolding c by (cases "Suc i = length data") simp_all
      have "transformSlice_select sel (int i) ?d =
            Return (take i ?d @ filter sel (drop i ?d)) None"
        using "1.hyps"(1) [of i] False True d by simp
      then have "transformSlice_select sel (int i) ?d =
            Return (take i data @ filter sel (drop (Suc i) data)) None"
        using True by (simp add: d)
      then show ?thesis
        using False True dr
        by (subst transformSlice_select.simps) simp
    qed
  qed
qed

lemma transformSlice_select_filter:
  "transformSlice_select sel 0 data = Return (filter sel data) None"
  using transformSlice_select_filter_nat [of 0 data sel] by simp

lemma transformSlice_convert_elements_from:
  "n \<le> length data \<Longrightarrow>
   transformSlice_convert f n data =
     (case convert_elements f (drop n data) of
        Panic p \<Rightarrow> Panic p
      | Return ys e \<Rightarrow> Return (take n data @ ys) e)"
proof (induction f n data rule: transformSlice_convert.induct)
  case (1 f n data)
  show ?case
  proof (cases "n < length data")
    case False
    with "1.prems" show ?thesis by (subst transformSlice_convert.simps) simp
  next
    case True
    have dr: "drop n data = data ! n # drop (Suc n) data"
      using True by (simp add: Cons_nth_drop_Suc)
    show ?thesis
    proof (cases "f (data ! n)")
      case (Panic p)
      with True dr show ?thesis by (subst transformSlice_convert.simps) simp
    next
      case (Return d e)
      show ?thesis
      proof (cases e)
        case (Some err)
        have "convert_elements f (data ! n # drop (Suc n) data) =
              Return (data ! n # drop (Suc n) data) (Some err)"
          using Return Some by simp
        then have "convert_elements f (drop n data) = Return (drop n data) (Some err)"
          by (simp only: dr [symmetric])
        with Return Some True show ?thesis
          by (subst transformSlice_convert.simps) simp
      next
        case None
        have "transformSlice_convert f (n + 1) (data[n := d]) =
              (case convert_elements f (drop (n + 1) (data[n := d])) of
                 Panic p \<Rightarrow> Panic p
               | Return ys e \<Rightarrow> Return (take (n + 1) (data[n := d]) @ ys) e)"
          using "1.IH" [OF True Return None] True by simp
        moreover have "take (n + 1) (data[n := d]) = take n data @ [d]"
          using True by (simp add: take_Suc_conv_app_nth)
        ultimately show ?thesis
          using Return None True dr
          by (subst transformSlice_convert.simps) (simp split: outcome.splits)
      qed
    qed
  qed
qed

lemma transformSlice_convert_elements:
  "transformSlice_convert f 0 data = convert_elements f data"
  using transformSlice_convert_elements_from [of 0 data f] by (simp split: outcome.splits)

lemma transformSlice_eq:
  "transformSlice t (Some xs) =
     (case convert_elements (transformInterface t) xs of
        Panic p \<Rightarrow> Panic p
      | Return ys (Some err) \<Rightarrow> Return (VSlice (Some ys)) (Some err)
      | Return ys None \<Rightarrow> Return (VSlice (Some (filter (sliceSelector t) ys))) None)"
  by (simp add: transformSlice_convert_elements transformSlice_select_filter
      split: outcome.splits option.splits)

lemma convert_elements_map:
  "(\<And>x. x \<in> set xs \<Longrightarrow> f x = Return (g x) None) \<Longrightarrow>
   convert_elements f xs = Return (map g xs) None"
  by (induction xs) simp_all

lemma convert_elements_no_error:
  "(\<And>x d err. x \<in> set xs \<Longrightarrow> f x \<noteq> Return d (Some err)) \<Longrightarrow>
   convert_elements f xs \<noteq> Return ys (Some err)"
proof (induction xs arbitrary: ys)
  case Nil
  then show ?case by simp
next
  case (Cons x xs)
  then show ?case
    by (auto split: outcome.splits option.splits)
qed

lemma convert_elements_panic:
  "(\<And>x d err. x \<in> set xs \<Longrightarrow> f x \<noteq> Return d (Some err)) \<Longrightarrow>
   x \<in> set xs \<Longrightarrow> f x = Panic p \<Longrightarrow> \<exists>q. convert_elements f xs = Panic q"
proof (induction xs)
  case Nil
  then show ?case by simp
next
  case (Cons y xs)
  then show ?case
    by (cases "f y") (auto split: outcome.splits option.splits)
qed

subsection \<open>The loops of \<open>transformMap\<close>\<close>

lemma MapKeys_wellformed: "unequal_keys (map fst m) \<Longrightarrow> MapKeys m = map fst m"
  by (induction m rule: MapKeys.induct)
    (auto simp: filter_id_conv dest: MapKeys_subset [THEN subsetD])

lemma MapIndex_append_fresh:
  "key_equal k k \<Longrightarrow> \<forall>k' \<in> fst ` set m1. \<not> key_equal k' k \<Longrightarrow>
   MapIndex (m1 @ (k, v) # m2) k = Some v"
  by (induction m1) auto

lemma filter_fresh:
  "\<forall>k' \<in> fst ` set m. \<not> key_equal k' k \<Longrightarrow> filter (\<lambda>(k', v'). \<not> key_equal k' k) m = m"
  by (induction m) auto

lemma map_fresh:
  "\<forall>k' \<in> fst ` set m. \<not> key_equal k' k \<Longrightarrow>
   map (\<lambda>(k', v'). if key_equal k' k then (k, d) else (k', v')) m = m"
  by (induction m) auto

lemma delete_append_fresh:
  "key_equal k k \<Longrightarrow> \<forall>k' \<in> fst ` set m1. \<not> key_equal k' k \<Longrightarrow>
   \<forall>k' \<in> fst ` set m2. \<not> key_equal k' k \<Longrightarrow>
   filter (\<lambda>(k', v'). \<not> key_equal k' k) (m1 @ (k, v) # m2) = m1 @ m2"
  by (simp add: filter_fresh)

lemma update_append_fresh:
  "key_equal k k \<Longrightarrow> \<forall>k' \<in> fst ` set m1. \<not> key_equal k' k \<Longrightarrow>
   \<forall>k' \<in> fst ` set m2. \<not> key_equal k' k \<Longrightarrow>
   map (\<lambda>(k', v'). if key_equal k' k then (k, d) else (k', v')) (m1 @ (k, v) # m2) =
   m1 @ (k, d) # m2"
  by (simp add: map_fresh)

lemma SetMapIndex_append_fresh:
  "key_equal k k \<Longrightarrow> \<forall>k' \<in> fst ` set m1. \<not> key_equal k' k \<Longrightarrow>
   \<forall>k' \<in> fst ` set m2. \<not> key_equal k' k \<Longrightarrow>
   SetMapIndex (m1 @ (k, v) # m2) k e = m1 @ (case e of None \<Rightarrow> [] | Some d \<Rightarrow> [(k, d)]) @ m2"
  by (cases e)
    (simp_all only: SetMapIndex.simps update_append_fresh delete_append_fresh
      MapIndex_append_fresh option.case append_Nil append_Cons)

lemma found_keys_split:
  assumes "found_keys (m1 @ (k, v) # m2)"
  shows "key_equal k k" "\<forall>k' \<in> fst ` set m1. \<not> key_equal k' k"
    "\<forall>k' \<in> fst ` set m2. \<not> key_equal k' k" "found_keys (m1 @ m2)"
    "found_keys ((m1 @ [(k, w)]) @ m2)"
proof -
  from assms show self: "key_equal k k" by (simp add: found_keys_def)
  from assms show "\<forall>k' \<in> fst ` set m1. \<not> key_equal k' k"
    by (auto simp: found_keys_def sorted_wrt_append)
  from assms have "\<forall>k' \<in> fst ` set m2. \<not> key_equal k k'"
    by (auto simp: found_keys_def sorted_wrt_append)
  then show "\<forall>k' \<in> fst ` set m2. \<not> key_equal k' k"
    using key_equal_sym by blast
  from assms show "found_keys (m1 @ m2)"
    by (auto simp: found_keys_def sorted_wrt_append)
  from assms show "found_keys ((m1 @ [(k, w)]) @ m2)"
    by (auto simp: found_keys_def sorted_wrt_append)
qed

lemma transformMap_convert_loop_entries:
  "found_keys (m1 @ m2) \<Longrightarrow>
   transformMap_convert_loop f (map fst m2) (m1 @ m2) =
     (case convert_entries f m2 of
        Panic p \<Rightarrow> Panic p
      | Return m2' e \<Rightarrow> Return (m1 @ m2') e)"
proof (induction m2 arbitrary: m1)
  case Nil
  then show ?case by simp
next
  case (Cons kv m2)
  obtain k v where kv: "kv = (k, v)" by (cases kv)
  from Cons.prems have fk: "found_keys (m1 @ (k, v) # m2)" by (simp add: kv)
  note fresh = found_keys_split(1-3) [OF fk]
  have look: "MapIndex (m1 @ (k, v) # m2) k = Some v"
    using fresh(1,2) by (rule MapIndex_append_fresh)
  have keep: "transformMap_convert_loop f (map fst m2) (m1 @ (k, w) # m2) =
        (case convert_entries f m2 of
           Panic p \<Rightarrow> Panic p
         | Return m2' e \<Rightarrow> Return (m1 @ (k, w) # m2') e)" for w
    using Cons.IH [of "m1 @ [(k, w)]"] found_keys_split(5) [OF fk, of w]
    by (simp split: outcome.splits)
  have drop: "transformMap_convert_loop f (map fst m2) (m1 @ m2) =
        (case convert_entries f m2 of
           Panic p \<Rightarrow> Panic p
         | Return m2' e \<Rightarrow> Return (m1 @ m2') e)"
    using Cons.IH [of m1] found_keys_split(4) [OF fk] by simp
  have set: "SetMapIndex (m1 @ (k, v) # m2) k e =
        m1 @ (case e of None \<Rightarrow> [] | Some d \<Rightarrow> [(k, d)]) @ m2" for e
    using fresh by (rule SetMapIndex_append_fresh)
  show ?case
  proof (cases "isNil v")
    case True
    then show ?thesis
      using look keep [of v] by (simp add: kv split: outcome.splits)
  next
    case False
    show ?thesis
    proof (cases "f v")
      case (Panic p)
      with False look show ?thesis by (simp add: kv)
    next
      case (Return d e)
      show ?thesis
      proof (cases e)
        case (Some err)
        with Return False look show ?thesis by (simp add: kv)
      next
        case None
        show ?thesis
        proof (cases "ValueOf d")
          case None
          with Return \<open>e = None\<close> False look drop show ?thesis
            by (simp add: kv set del: SetMapIndex.simps split: outcome.splits)
        next
          case (Some d')
          with Return \<open>e = None\<close> False look keep [of d'] show ?thesis
            by (simp add: kv set del: SetMapIndex.simps split: outcome.splits)
        qed
      qed
    qed
  qed
qed

lemma found_keys_MapKeys: "found_keys m \<Longrightarrow> MapKeys m = map fst m"
  by (simp add: found_keys_def MapKeys_wellformed)

lemma transformMap_convert_entries:
  "found_keys m \<Longrightarrow> transformMap_convert f m = convert_entries f m"
  using transformMap_convert_loop_entries [of "[]" m f]
  by (simp add: transformMap_convert_def found_keys_MapKeys split: outcome.splits)

lemma transformMap_select_filter_from:
  "found_keys (m1 @ m2) \<Longrightarrow>
   transformMap_select sel (map fst m2) (m1 @ m2) =
     Return (m1 @ filter (\<lambda>(k, v). sel k v) m2) None"
proof (induction m2 arbitrary: m1)
  case Nil
  then show ?case by simp
next
  case (Cons kv m2)
  obtain k v where kv: "kv = (k, v)" by (cases kv)
  from Cons.prems have fk: "found_keys (m1 @ (k, v) # m2)" by (simp add: kv)
  note fresh = found_keys_split(1-3) [OF fk]
  have look: "MapIndex (m1 @ (k, v) # m2) k = Some v"
    using fresh(1,2) by (rule MapIndex_append_fresh)
  have set: "SetMapIndex (m1 @ (k, v) # m2) k None = m1 @ m2"
    using SetMapIndex_append_fresh [OF fresh, of v None] by simp
  show ?case
  proof (cases "sel k v")
    case True
    then show ?thesis
      using look Cons.IH [of "m1 @ [(k, v)]"] found_keys_split(5) [OF fk, of v]
      by (simp add: kv)
  next
    case False
    then show ?thesis
      using look Cons.IH [of m1] found_keys_split(4) [OF fk]
      by (simp add: kv set del: SetMapIndex.simps)
  qed
qed

lemma transformMap_select_filter:
  "found_keys m \<Longrightarrow>
   transformMap_select sel (MapKeys m) m = Return (filter (\<lambda>(k, v). sel k v) m) None"
  using transformMap_select_filter_from [of "[]" m sel] by (simp add: found_keys_MapKeys)

lemma convert_entries_keys:
  "convert_entries f m = Return m' e \<Longrightarrow>
   fst ` set m' \<subseteq> fst ` set m \<and> (unequal_keys (map fst m) \<longrightarrow> unequal_keys (map fst m'))"
proof (induction m arbitrary: m' e)
  case Nil
  then show ?case by simp
next
  case (Cons kv m)
  obtain k v where kv: "kv = (k, v)" by (cases kv)
  show ?case
  proof (cases "isNil v \<or> (\<exists>d. f v = Return d None)")
    case True
    then obtain r where r: "convert_entries f m = Return r e"
      and m': "m' = r \<or> (\<exists>w. m' = (k, w) # r)"
      using Cons.prems
      by (auto simp: kv split: if_splits outcome.splits option.splits)
    from Cons.IH [OF r] have sub: "fst ` set r \<subseteq> fst ` set m"
      and dist: "unequal_keys (map fst m) \<Longrightarrow> unequal_keys (map fst r)"
      by simp_all
    from m' show ?thesis
    proof
      assume "m' = r"
      with sub dist show ?thesis by (auto simp: kv)
    next
      assume "\<exists>w. m' = (k, w) # r"
      then obtain w where w: "m' = (k, w) # r" ..
      have "\<forall>k' \<in> fst ` set r. \<not> key_equal k k'" if "\<forall>k' \<in> fst ` set m. \<not> key_equal k k'"
        using that sub by blast
      with sub dist show ?thesis by (auto simp: kv w)
    qed
  next
    case False
    then have "m' = kv # m"
      using Cons.prems by (auto simp: kv split: if_splits outcome.splits option.splits)
    then show ?thesis by simp
  qed
qed

lemma convert_entries_found_keys:
  "convert_entries f m = Return m' e \<Longrightarrow> found_keys m \<Longrightarrow> found_keys m'"
proof -
  assume r: "convert_entries f m = Return m' e" and fk: "found_keys m"
  from convert_entries_keys [OF r] fk have "unequal_keys (map fst m')"
    and sub: "fst ` set m' \<subseteq> fst ` set m"
    by (simp_all add: found_keys_def)
  moreover have "key_equal k k" if "k \<in> fst ` set m'" for k
  proof -
    from that sub have "k \<in> set (map fst m)" by auto
    with fk show ?thesis by (force simp: found_keys_def list_all_iff)
  qed
  ultimately show ?thesis by (simp add: found_keys_def list_all_iff)
qed

lemma transformMap_eq:
  "found_keys m \<Longrightarrow>
   transformMap t (VMap (Some m)) =
     (case convert_entries (transformInterface t) m of
        Panic p \<Rightarrow> Panic p
      | Return m' (Some err) \<Rightarrow> Return (VMap (Some m')) (Some err)
      | Return m' None \<Rightarrow> Return (VMap (Some (filter (\<lambda>(k, v). kvSelector t k v) m'))) None)"
  by (auto simp: transformMap_convert_entries transformMap_select_filter convert_entries_found_keys
      split: outcome.splits option.splits)

text \<open>A key that is not equal to itself is not found: the first loop panics.\<close>

lemma transformMap_convert_loop_unfound:
  assumes "k \<in> set keys" "\<not> key_equal k k" "\<And>v d err. f v \<noteq> Return d (Some err)"
  shows "\<exists>p. transformMap_convert_loop f keys data = Panic p"
  using assms(1)
proof (induction keys arbitrary: data)
  case Nil
  then show ?case by simp
next
  case (Cons k' keys)
  show ?case
  proof (cases "MapIndex data k'")
    case None
    then show ?thesis by simp
  next
    case (Some v)
    then have "key_equal k' k'" by (rule MapIndex_Some_self)
    with assms(2) Cons.prems have "k \<in> set keys" by auto
    then have rest: "\<exists>p. transformMap_convert_loop f keys data' = Panic p" for data'
      by (rule Cons.IH)
    show ?thesis
    proof (cases "f v")
      case (Panic p)
      with Some rest [of data] show ?thesis by simp
    next
      case (Return d e)
      with assms(3) [of v d] have "e = None" by (cases e) auto
      with Return Some rest [of data] rest [of "SetMapIndex data k' (ValueOf d)"]
      show ?thesis by (simp del: SetMapIndex.simps)
    qed
  qed
qed

subsection \<open>The walk by the kind of the value\<close>

lemma isNil_cases:
  "isNil v \<longleftrightarrow>
     v \<in> {VNil, VSlice None, VStrSlice None, VMapSlice None, VMap None, VPtr None, VFunc None,
          VChan None}"
  by (cases v) (auto simp: isNil_def)

lemma transformInterface_isNil: "isNil v \<Longrightarrow> transformInterface t v = Return VNil None"
  by (auto simp: isNil_cases)

lemma transformInterface_VSlice:
  "transformInterface t (VSlice (Some xs)) = transformSlice t (Some xs)"
  by (simp add: isNil_def)

lemma transformInterface_VMap:
  "transformInterface t (VMap (Some m)) = transformMap t (VMap (Some m))"
  by (simp add: isNil_def)

lemma transformInterface_VStrSlice:
  "transformInterface t (VStrSlice (Some ss)) = Panic TypeAssertionPanic"
  by (simp add: isNil_def)

lemma transformMap_convert_loop_no_error:
  assumes "unequal_keys keys"
    and "\<forall>k \<in> set keys. MapIndex data k = MapIndex m k"
    and "\<forall>v \<in> snd ` set m. \<forall>d err. f v \<noteq> Return d (Some err)"
  shows "transformMap_convert_loop f keys data \<noteq> Return r (Some err)"
  using assms
proof (induction keys arbitrary: data)
  case Nil
  then show ?case by simp
next
  case (Cons k keys)
  show ?case
  proof (cases "MapIndex data k")
    case None
    then show ?thesis by simp
  next
    case (Some v)
    with Cons.prems have "MapIndex m k = Some v" by simp
    then have "v \<in> snd ` set m" by (metis MapIndex_SomeD snd_conv imageI)
    with Cons.prems have fv: "f v \<noteq> Return d (Some err')" for d err' by blast
    have rest: "transformMap_convert_loop f keys data' \<noteq> Return r (Some err)"
      if "\<forall>k' \<in> set keys. MapIndex data' k' = MapIndex data k'" for data'
      using Cons.IH [of data'] Cons.prems that by simp
    have upd: "\<forall>k' \<in> set keys. MapIndex (SetMapIndex data k e) k' = MapIndex data k'" for e
      using Cons.prems(1) by (auto intro!: MapIndex_SetMapIndex_other)
    show ?thesis
      using Some fv rest [OF upd] rest [of data]
      by (simp split: outcome.splits option.splits)
  qed
qed

lemma transformMap_convert_no_error:
  "(\<And>v d err. v \<in> snd ` set m \<Longrightarrow> f v \<noteq> Return d (Some err)) \<Longrightarrow>
   transformMap_convert f m \<noteq> Return r (Some err)"
  unfolding transformMap_convert_def
  by (rule transformMap_convert_loop_no_error [where m = m]) (auto simp: MapKeys_unequal)

lemma transformMap_select_no_error:
  "transformMap_select sel keys data \<noteq> Return r (Some err)"
  by (induction keys arbitrary: data) (auto split: option.splits)

lemma transformInterface_no_error: "transformInterface t v \<noteq> Return w (Some err)"
proof (induction v arbitrary: w err)
  case (VSlice xo)
  show ?case
  proof (cases xo)
    case None
    then show ?thesis by (simp add: isNil_def)
  next
    case (Some xs)
    have "convert_elements (transformInterface t) xs \<noteq> Return ys (Some err')" for ys err'
      by (rule convert_elements_no_error) (use VSlice Some in auto)
    then show ?thesis
      unfolding Some transformInterface_VSlice transformSlice_eq
      by (simp split: outcome.splits option.splits)
  qed
next
  case (VMap mo)
  show ?case
  proof (cases mo)
    case None
    then show ?thesis by (simp add: isNil_def)
  next
    case (Some m)
    have "transformMap_convert (transformInterface t) m \<noteq> Return r (Some err')" for r err'
      by (rule transformMap_convert_no_error) (use VMap Some in \<open>auto simp: snds.simps\<close>)
    then show ?thesis
      unfolding Some transformInterface_VMap
      by (auto simp: transformMap_select_no_error split: outcome.splits option.splits)
  qed
qed (simp_all add: isNil_def)

text \<open>
  From here on the two functions are unfolded through \<open>transformSlice_eq\<close> and
  \<open>transformMap_eq\<close>, not through their loops.
\<close>

declare transformSlice.simps(2) [simp del] transformMap.simps(1) [simp del]

lemma convert_elements_list_all2:
  "list_all2 (\<lambda>x y. f x = Return y None) xs ys \<Longrightarrow> convert_elements f xs = Return ys None"
  by (induction xs ys rule: list_all2_induct) simp_all

lemma callingTransformer_Transform_eq:
  "callingTransformer_Transform t = transformInterface t"
  by (rule ext) (simp add: callingTransformer_Transform_def isNil_def)

lemma NewConfigurableTransformer_cases:
  obtains (nop) "s = None" "f = None" "c = None" "es = None" "kv = None"
      "NewConfigurableTransformer s f c es kv = NopTransformer_Transform"
    | (calling) t where "NewConfigurableTransformer s f c es kv = transformInterface t"
      "sliceSelector t = (case es of None \<Rightarrow> (\<lambda>element. True) | Some es' \<Rightarrow> es')"
      "kvSelector t = (case kv of None \<Rightarrow> (\<lambda>key value. True) | Some kv' \<Rightarrow> kv')"
  by (cases "s = None \<and> f = None \<and> c = None \<and> es = None \<and> kv = None")
    (auto simp: NewConfigurableTransformer_def callingTransformer_Transform_eq)

subsection \<open>The walk with identity converters is \<open>nil_removed\<close>\<close>

lemma found_keysI: "wellformed (VMap (Some m)) \<Longrightarrow> generic (VMap (Some m)) \<Longrightarrow> found_keys m"
  by (auto simp: found_keys_def list_all_iff)

lemma convert_entries_map:
  "(\<And>k v. (k, v) \<in> set m \<Longrightarrow> \<not> isNil v \<Longrightarrow> f v = Return (g v) None \<and> g v \<noteq> VNil) \<Longrightarrow>
   convert_entries f m = Return (map (\<lambda>(k, v). (k, if isNil v then v else g v)) m) None"
proof (induction m)
  case Nil
  then show ?case by simp
next
  case (Cons kv m)
  obtain k v where kv: "kv = (k, v)" by (cases kv)
  have rest: "convert_entries f m = Return (map (\<lambda>(k, v). (k, if isNil v then v else g v)) m) None"
    by (rule Cons.IH) (use Cons.prems in auto)
  show ?case
  proof (cases "isNil v")
    case True
    with rest show ?thesis by (simp add: kv)
  next
    case False
    with Cons.prems [of k v] have fv: "f v = Return (g v) None" and nn: "g v \<noteq> VNil"
      by (simp_all add: kv)
    from nn obtain d where "ValueOf (g v) = Some d" "d = g v"
      by (cases "g v") simp_all
    with False fv rest show ?thesis by (simp add: kv)
  qed
qed

lemma nil_removed_not_VNil: "\<not> isNil v \<Longrightarrow> nil_removed es kv v \<noteq> VNil"
  by (induction es kv v rule: nil_removed.induct) (auto simp: isNil_def)

lemma transformInterface_nil_removed:
  "wellformed v \<Longrightarrow> generic v \<Longrightarrow>
   transformInterface (identity_converters es kv) v = Return (nil_removed es kv v) None"
proof (induction v)
  case (VSlice xo)
  show ?case
  proof (cases xo)
    case None
    then show ?thesis by (simp add: isNil_def)
  next
    case (Some xs)
    have "convert_elements (transformInterface (identity_converters es kv)) xs =
          Return (map (nil_removed es kv) xs) None"
      by (rule convert_elements_map) (use VSlice Some in \<open>auto simp: list_all_iff\<close>)
    then show ?thesis
      unfolding Some transformInterface_VSlice transformSlice_eq
      by (simp add: identity_converters_def)
  qed
next
  case (VMap mo)
  show ?case
  proof (cases mo)
    case None
    then show ?thesis by (simp add: isNil_def)
  next
    case (Some m)
    from VMap.prems have dist: "found_keys m"
      and wf: "\<And>k v. (k, v) \<in> set m \<Longrightarrow> wellformed v"
      and gen: "\<And>k v. (k, v) \<in> set m \<Longrightarrow> generic v"
      by (auto simp: Some found_keysI list_all_iff)
    have "convert_entries (transformInterface (identity_converters es kv)) m =
          Return (map (\<lambda>(k, v). (k, if isNil v then v else nil_removed es kv v)) m) None"
    proof (rule convert_entries_map, intro conjI)
      fix k v assume kv: "(k, v) \<in> set m" and nn: "\<not> isNil v"
      show "transformInterface (identity_converters es kv) v = Return (nil_removed es kv v) None"
        using VMap.IH(2) [of m "(k, v)" v] kv wf gen by (simp add: Some)
      show "nil_removed es kv v \<noteq> VNil"
        using nn by (rule nil_removed_not_VNil)
    qed
    then show ?thesis
      unfolding Some transformInterface_VMap transformMap_eq [OF dist]
      by (simp add: identity_converters_def)
  qed
qed (simp_all add: isNil_def identity_converters_def)

lemma nil_removed_idem: "nil_removed es kv (nil_removed es kv v) = nil_removed es kv v"
proof (induction v)
  case (VSlice xo)
  show ?case
  proof (cases xo)
    case None
    then show ?thesis by (simp add: isNil_def)
  next
    case (Some xs)
    have "map (nil_removed es kv) (filter es (map (nil_removed es kv) xs)) =
          filter es (map (nil_removed es kv) xs)"
      by (rule map_idI) (use VSlice Some in auto)
    then show ?thesis by (simp add: Some)
  qed
next
  case (VMap mo)
  show ?case
  proof (cases mo)
    case None
    then show ?thesis by (simp add: isNil_def)
  next
    case (Some m)
    let ?h = "\<lambda>(k, v). (k, if isNil v then v else nil_removed es kv v)"
    have "map ?h (filter (\<lambda>(k, v). kv k v) (map ?h m)) = filter (\<lambda>(k, v). kv k v) (map ?h m)"
    proof (rule map_idI)
      fix e assume "e \<in> set (filter (\<lambda>(k, v). kv k v) (map ?h m))"
      then obtain k v where e: "e = ?h (k, v)" and kv: "(k, v) \<in> set m" by auto
      have "nil_removed es kv (nil_removed es kv v) = nil_removed es kv v"
        using VMap [of m "(k, v)" v] kv by (simp add: Some)
      then show "?h e = e" by (simp add: e)
    qed
    then show ?thesis by (simp add: Some)
  qed
qed (simp_all add: isNil_def)

lemma sorted_wrt_map_filter:
  "sorted_wrt R (map f xs) \<Longrightarrow> sorted_wrt R (map f (filter P xs))"
  by (induction xs) auto

lemma wellformed_nil_removed: "wellformed v \<Longrightarrow> wellformed (nil_removed es kv v)"
proof (induction v)
  case (VSlice xo)
  then show ?case by (cases xo) (auto simp: isNil_def list_all_iff)
next
  case (VMap mo)
  show ?case
  proof (cases mo)
    case None
    then show ?thesis by (simp add: isNil_def)
  next
    case (Some m)
    let ?h = "\<lambda>(k, v). (k, if isNil v then v else nil_removed es kv v)"
    have keys: "map fst (map ?h m) = map fst m" by (induction m) auto
    from VMap.prems have "unequal_keys (map fst (map ?h m))" by (simp only: keys) (simp add: Some)
    then have "unequal_keys (map fst (filter (\<lambda>(k, v). kv k v) (map ?h m)))"
      by (rule sorted_wrt_map_filter)
    moreover have "hashable k \<and> wellformed (if isNil v then v else nil_removed es kv v)"
      if v: "(k, v) \<in> set m" for k v
    proof -
      from v VMap.prems have "hashable k" "wellformed v" by (auto simp: Some list_all_iff)
      with VMap.IH(2) [of m "(k, v)" v] v show ?thesis by (simp add: Some)
    qed
    ultimately show ?thesis by (auto simp: Some list_all_iff)
  qed
qed (simp_all add: isNil_def)

lemma generic_nil_removed: "generic v \<Longrightarrow> generic (nil_removed es kv v)"
proof (induction v)
  case (VSlice xo)
  then show ?case by (cases xo) (auto simp: isNil_def list_all_iff)
next
  case (VMap mo)
  show ?case
  proof (cases mo)
    case None
    then show ?thesis by (simp add: isNil_def)
  next
    case (Some m)
    let ?h = "\<lambda>(k, v). (k, if isNil v then v else nil_removed es kv v)"
    have "key_equal k k \<and> generic (if isNil v then v else nil_removed es kv v)"
      if v: "(k, v) \<in> set m" for k v
    proof -
      from v VMap.prems have "key_equal k k" "generic v" by (auto simp: Some list_all_iff)
      with VMap.IH(2) [of m "(k, v)" v] v show ?thesis by (simp add: Some)
    qed
    then show ?thesis by (auto simp: Some list_all_iff)
  qed
qed (simp_all add: isNil_def)

lemma NilRemovalTransformer_Transform_off:
  "\<not> RemoveNilKeys t \<Longrightarrow> \<not> RemoveNilValues t \<Longrightarrow> \<not> RemoveNilElements t \<Longrightarrow>
   NilRemovalTransformer_Transform t v = Return v None"
  by (simp add: NilRemovalTransformer_Transform_def NewConfigurableTransformer_def
      NopTransformer_Transform_def)

lemma NilRemovalTransformer_Transform_on:
  "RemoveNilKeys t \<or> RemoveNilValues t \<or> RemoveNilElements t \<Longrightarrow>
   NilRemovalTransformer_Transform t v =
     transformInterface (identity_converters (element_selector_of t) (pair_selector_of t)) v"
  by (cases "v = VNil")
    (auto simp: NilRemovalTransformer_Transform_def NewConfigurableTransformer_def
      callingTransformer_Transform_eq identity_converters_def element_selector_of_def
      pair_selector_of_def isNil_def)

subsection \<open>Where the walk returns\<close>

text \<open>
  The walk never returns an error. On a wellformed value it returns exactly when the
  value is \<open>generic\<close>, and it panics exactly when it is not, whatever the converters and
  selectors are.
\<close>

lemma list_all2_exists:
  "(\<And>x. x \<in> set xs \<Longrightarrow> \<exists>y. P x y) \<Longrightarrow> \<exists>ys. list_all2 P xs ys"
proof (induction xs)
  case Nil
  then show ?case by simp
next
  case (Cons x xs)
  then obtain y ys where "P x y" "list_all2 P xs ys" by (metis list.set_intros)
  then have "list_all2 P (x # xs) (y # ys)" by simp
  then show ?case by blast
qed

lemma convert_entries_returns:
  "(\<And>k v. (k, v) \<in> set m \<Longrightarrow> \<not> isNil v \<Longrightarrow> \<exists>d. f v = Return d None) \<Longrightarrow>
   \<exists>m'. convert_entries f m = Return m' None"
proof (induction m)
  case Nil
  then show ?case by simp
next
  case (Cons kv m)
  obtain k v where kv: "kv = (k, v)" by (cases kv)
  from Cons obtain r where r: "convert_entries f m = Return r None" by auto
  show ?case
  proof (cases "isNil v")
    case True
    with r show ?thesis by (simp add: kv)
  next
    case False
    with Cons.prems [of k v] obtain d where "f v = Return d None" by (auto simp: kv)
    with False r show ?thesis by (simp add: kv)
  qed
qed

lemma convert_entries_panic:
  "(\<And>v d err. f v \<noteq> Return d (Some err)) \<Longrightarrow>
   (k, v) \<in> set m \<Longrightarrow> \<not> isNil v \<Longrightarrow> f v = Panic p \<Longrightarrow> \<exists>q. convert_entries f m = Panic q"
proof (induction m)
  case Nil
  then show ?case by simp
next
  case (Cons kv m)
  obtain k' v' where kv: "kv = (k', v')" by (cases kv)
  show ?case
  proof (cases "(k, v) = kv")
    case True
    with Cons.prems show ?thesis by (simp add: kv)
  next
    case False
    with Cons obtain q where q: "convert_entries f m = Panic q" by auto
    show ?thesis
    proof (cases "isNil v'")
      case True
      with q show ?thesis by (simp add: kv)
    next
      case False
      show ?thesis
      proof (cases "f v'")
        case (Return d e)
        with Cons.prems(1) [of v' d] have "e = None" by (cases e) auto
        with Return q False show ?thesis by (simp add: kv)
      next
        case (Panic p')
        with False show ?thesis by (simp add: kv)
      qed
    qed
  qed
qed

lemma transformInterface_total:
  "(\<exists>w. transformInterface t v = Return w None) \<or> (\<exists>p. transformInterface t v = Panic p)"
proof (cases "transformInterface t v")
  case (Return w e)
  then show ?thesis using transformInterface_no_error [of t v w] by (cases e) auto
next
  case (Panic p)
  then show ?thesis by simp
qed

lemma transformInterface_returns_generic:
  "wellformed v \<Longrightarrow> generic v \<Longrightarrow> \<exists>w. transformInterface t v = Return w None"
proof (induction v)
  case (VSlice xo)
  show ?case
  proof (cases xo)
    case None
    then show ?thesis by (simp add: isNil_def)
  next
    case (Some xs)
    have "\<exists>ys. list_all2 (\<lambda>x y. transformInterface t x = Return y None) xs ys"
      by (rule list_all2_exists) (use VSlice Some in \<open>auto simp: list_all_iff\<close>)
    then obtain ys where "convert_elements (transformInterface t) xs = Return ys None"
      using convert_elements_list_all2 by blast
    then show ?thesis
      unfolding Some transformInterface_VSlice transformSlice_eq by simp
  qed
next
  case (VMap mo)
  show ?case
  proof (cases mo)
    case None
    then show ?thesis by (simp add: isNil_def)
  next
    case (Some m)
    from VMap.prems have dist: "found_keys m"
      and wf: "\<And>k v. (k, v) \<in> set m \<Longrightarrow> wellformed v"
      and gen: "\<And>k v. (k, v) \<in> set m \<Longrightarrow> generic v"
      by (auto simp: Some found_keysI list_all_iff)
    have "\<exists>m'. convert_entries (transformInterface t) m = Return m' None"
    proof (rule convert_entries_returns)
      fix k v assume kv: "(k, v) \<in> set m"
      show "\<exists>d. transformInterface t v = Return d None"
        using VMap.IH(2) [of m "(k, v)" v] kv wf gen by (simp add: Some)
    qed
    then show ?thesis
      unfolding Some transformInterface_VMap transformMap_eq [OF dist] by auto
  qed
next
  case (VStrSlice xs)
  then show ?case by (simp add: isNil_def)
qed (simp_all add: isNil_def)

lemma transformInterface_panics_not_generic:
  "wellformed v \<Longrightarrow> \<not> generic v \<Longrightarrow> \<exists>p. transformInterface t v = Panic p"
proof (induction v)
  case (VSlice xo)
  then obtain xs where Some: "xo = Some xs" by (cases xo) auto
  with VSlice.prems obtain x where x: "x \<in> set xs" "\<not> generic x" "wellformed x"
    by (auto simp: list_all_iff)
  with VSlice.IH [of xs x] Some obtain p where "transformInterface t x = Panic p" by auto
  then have "\<exists>q. convert_elements (transformInterface t) xs = Panic q"
    by (rule convert_elements_panic [rotated 2]) (simp_all add: transformInterface_no_error x)
  then show ?case
    unfolding Some transformInterface_VSlice transformSlice_eq by auto
next
  case (VMap mo)
  then obtain m where Some: "mo = Some m" by (cases mo) auto
  from VMap.prems have uneq: "unequal_keys (map fst m)" by (simp add: Some)
  show ?case
  proof (cases "list_all (\<lambda>k. key_equal k k) (map fst m)")
    case False
    then obtain k where k: "k \<in> set (MapKeys m)" "\<not> key_equal k k"
      by (auto simp: MapKeys_wellformed [OF uneq] list_all_iff)
    then have "\<exists>p. transformMap_convert (transformInterface t) m = Panic p"
      unfolding transformMap_convert_def
      by (rule transformMap_convert_loop_unfound) (rule transformInterface_no_error)
    then show ?thesis
      unfolding Some transformInterface_VMap by (auto simp: transformMap.simps(1))
  next
    case True
    with uneq have fk: "found_keys m" by (simp add: found_keys_def)
    from True VMap.prems(2) have "\<exists>(k, v) \<in> set m. \<not> generic v"
      by (auto simp: Some list_all_iff)
    then obtain k v where kv0: "(k, v) \<in> set m" "\<not> generic v" by auto
    with VMap.prems(1) have "wellformed v" by (auto simp: Some list_all_iff)
    note kv = kv0 this
    with VMap.IH(2) [of m "(k, v)" v] Some obtain p where p: "transformInterface t v = Panic p"
      by auto
    have "\<not> isNil v" using kv(2) by (auto simp: isNil_cases)
    with kv p have "\<exists>q. convert_entries (transformInterface t) m = Panic q"
      by (intro convert_entries_panic [where k = k and v = v and p = p])
        (simp_all add: transformInterface_no_error)
    then show ?thesis
      unfolding Some transformInterface_VMap transformMap_eq [OF fk] by auto
  qed
next
  case (VStrSlice xs)
  then show ?case by (cases xs) (simp_all add: isNil_def)
next
  case (VMapSlice xs)
  then show ?case by (cases xs) (simp_all add: isNil_def)
qed simp_all

lemma transformInterface_returns_iff_generic:
  assumes "wellformed v"
  shows "(\<exists>w. transformInterface t v = Return w None) \<longleftrightarrow> generic v"
    and "(\<exists>p. transformInterface t v = Panic p) \<longleftrightarrow> \<not> generic v"
  using assms transformInterface_returns_generic [of v t]
    transformInterface_panics_not_generic [of v t]
  by (metis outcome.distinct(1))+

text \<open>
  The two passes over a map whose converted values are not the nil interface: every
  entry with a non-nil value gets the converted value, and the entries that the pair
  selector rejects are removed.
\<close>

lemma transformMap_two_passes:
  assumes "found_keys m"
    and "\<And>k v. (k, v) \<in> set m \<Longrightarrow> \<not> isNil v \<Longrightarrow>
           transformInterface t v = Return (g v) None \<and> g v \<noteq> VNil"
  shows "transformInterface t (VMap (Some m)) =
     Return (VMap (Some (filter (\<lambda>(k, v). kvSelector t k v)
       (map (\<lambda>(k, v). (k, if isNil v then v else g v)) m)))) None"
proof -
  have "convert_entries (transformInterface t) m =
        Return (map (\<lambda>(k, v). (k, if isNil v then v else g v)) m) None"
    by (rule convert_entries_map) (use assms(2) in auto)
  then show ?thesis
    unfolding transformInterface_VMap transformMap_eq [OF assms(1)] by simp
qed

subsection \<open>The pipeline, the text adapter, the YAML adapter and the parser\<close>

lemma pipeline_append:
  "TransformerPipeline_Transform (ts @ us) v \<sigma> =
     (case TransformerPipeline_Transform ts v \<sigma> of
        (Return w None, \<sigma>') \<Rightarrow> TransformerPipeline_Transform us w \<sigma>'
      | r \<Rightarrow> r)"
proof (induction ts v \<sigma> rule: TransformerPipeline_Transform.induct)
  case (3 t ts v \<sigma>)
  then show ?case
    by (cases "t v \<sigma>") (auto split: outcome.splits option.splits)
qed simp_all

lemma foldl_append_filter:
  "foldl (\<lambda>acc t. if P t then acc @ [t] else acc) acc ts = acc @ filter P ts"
  by (induction ts arbitrary: acc) simp_all

lemma pipeline_skip_nil:
  "TransformerPipeline_Transform (filter (\<lambda>t. t \<noteq> None) ts) v \<sigma> =
   TransformerPipeline_Transform ts v \<sigma>"
proof (induction ts v \<sigma> rule: TransformerPipeline_Transform.induct)
  case (3 t ts v \<sigma>)
  then show ?case
    by (cases "t v \<sigma>") (auto split: outcome.splits option.splits)
qed simp_all

lemma NewMultiTransformer_eq:
  "NewMultiTransformer ts = TransformerPipeline_Transform ts"
  unfolding NewMultiTransformer_def foldl_append_filter append_Nil
  by (rule ext, rule ext, rule pipeline_skip_nil)

lemma Index_char_None: "Index s [d] = None \<Longrightarrow> d \<notin> set s"
  by (induction s) (auto split: if_splits)

lemma Index_char_Some: "Index s [d] = Some m \<Longrightarrow> m < length s \<and> s ! m = d"
proof (induction s arbitrary: m)
  case Nil
  then show ?case by simp
next
  case (Cons c cs)
  then show ?case by (cases "c = d") auto
qed

lemma Split_not_Nil: "sep \<noteq> [] \<Longrightarrow> Split s sep \<noteq> []"
  by (subst Split.simps) (simp split: option.splits)

lemma last_Split_char: "last (Split s [d]) = [] \<longleftrightarrow> s = [] \<or> last s = d"
proof (induction s "[d]" rule: Split.induct)
  case (1 s)
  show ?case
  proof (cases "Index s [d]")
    case None
    then have "d \<notin> set s" by (rule Index_char_None)
    then have "s \<noteq> [] \<Longrightarrow> last s \<noteq> d" using last_in_set by blast
    with None show ?thesis by (subst Split.simps) auto
  next
    case (Some m)
    then have m: "m < length s" "s ! m = d" by (simp_all add: Index_char_Some)
    let ?rest = "drop (m + length [d]) s"
    have ih: "last (Split ?rest [d]) = [] \<longleftrightarrow> ?rest = [] \<or> last ?rest = d"
      using "1.hyps" Some by simp
    have "(?rest = [] \<or> last ?rest = d) \<longleftrightarrow> last s = d"
    proof (cases "?rest = []")
      case True
      then have sm: "Suc m = length s" using m by simp
      then have "s \<noteq> []" by auto
      then have "last s = s ! (length s - 1)" by (rule last_conv_nth)
      also have "length s - 1 = m" using sm by simp
      finally have "last s = s ! m" .
      with True m show ?thesis by simp
    next
      case False
      then have "last ?rest = last s" by simp
      with False show ?thesis by simp
    qed
    moreover have "s \<noteq> []" using m by auto
    moreover have "last (Split s [d]) = last (Split ?rest [d])"
      using Some by (subst Split.simps) (simp add: Split_not_Nil)
    ultimately show ?thesis using ih by simp
  qed
qed

lemma suffix_single: "suffix [d] s \<longleftrightarrow> s \<noteq> [] \<and> last s = d"
  by (cases s rule: rev_cases) (auto simp: suffix_def)

lemma Index_prefix: "Index s substr = Some m \<Longrightarrow> prefix substr (drop m s)"
proof (induction s arbitrary: m)
  case Nil
  then show ?case by (simp split: if_splits)
next
  case (Cons c cs)
  show ?case
  proof (cases "prefix substr (c # cs)")
    case True
    with Cons.prems show ?thesis by simp
  next
    case False
    with Cons.prems obtain m' where "Index cs substr = Some m'" "m = Suc m'" by auto
    with Cons.IH show ?thesis by simp
  qed
qed

lemma last_Split_empty:
  "sep \<noteq> [] \<Longrightarrow> last (Split s sep) = [] \<Longrightarrow> s = [] \<or> suffix sep s"
proof (induction s sep rule: Split.induct)
  case (1 s sep)
  show ?case
  proof (cases "Index s sep")
    case None
    with "1.prems" show ?thesis by (subst (asm) Split.simps) simp
  next
    case (Some m)
    let ?rest = "drop (m + length sep) s"
    have "last (Split s sep) = last (Split ?rest sep)"
      using Some "1.prems"(1) by (subst Split.simps) (simp add: Split_not_Nil)
    with "1.prems" "1.IH" [OF _ Some] have ih: "?rest = [] \<or> suffix sep ?rest" by simp
    show ?thesis
    proof (cases "?rest = []")
      case False
      with ih have "suffix sep ?rest" by simp
      moreover have "suffix ?rest s" by (rule suffix_drop)
      ultimately show ?thesis using suffix_order.trans by blast
    next
      case True
      from Some have b: "m + length sep \<le> length s" by (rule Index_bound)
      with True have len: "length (drop m s) = length sep" by simp
      from Some have "prefix sep (drop m s)" by (rule Index_prefix)
      then obtain zs where zs: "drop m s = sep @ zs" by (auto simp: prefix_def)
      then have "length (drop m s) = length sep + length zs" by simp
      with len have "zs = []" by simp
      with zs have "drop m s = sep" by simp
      then have "suffix sep s" by (metis suffix_drop)
      then show ?thesis ..
    qed
  qed
qed

lemma TextFormat_records_explicit:
  "TextFormat_records scanner \<lparr>RecordDelimiter = c # cs, FieldDelimiter = fd\<rparr> s =
     (Some (if last (Split s (c # cs)) = [] then butlast (Split s (c # cs)) else Split s (c # cs)),
      None)"
proof -
  have ne: "Split s (c # cs) \<noteq> []" by (simp add: Split_not_Nil)
  then have "Split s (c # cs) ! (length (Split s (c # cs)) - 1) = last (Split s (c # cs))"
    by (simp add: last_conv_nth)
  moreover have "take (length (Split s (c # cs)) - 1) (Split s (c # cs)) = butlast (Split s (c # cs))"
    by (simp add: butlast_conv_take)
  ultimately show ?thesis
    using ne by (simp add: TextFormat_records_def readSeparatedStrings_def Let_def)
qed

lemma YAMLFormat_decode_loop_all:
  "YAMLFormat_decode_loop (map Decoded ds) documents =
     Return (documents @ map document_of ds) None"
proof (induction ds arbitrary: documents)
  case Nil
  then show ?case by simp
next
  case (Cons d ds)
  then show ?case by (cases d) simp_all
qed

lemma foldl_digits_mono: "n \<le> foldl (\<lambda>n c. n * 10 + digit_value c) n cs"
proof (induction cs arbitrary: n)
  case Nil
  then show ?case by simp
next
  case (Cons c cs)
  have "n \<le> n * 10 + digit_value c" by simp
  also have "\<dots> \<le> foldl (\<lambda>n c. n * 10 + digit_value c) (n * 10 + digit_value c) cs"
    by (rule Cons.IH)
  finally show ?case by simp
qed

lemma ParseUint_loop_ok:
  "ParseUint_loop maxVal cs n = (v, None) \<longleftrightarrow>
     list_all is_digit cs \<and> v = foldl (\<lambda>n c. n * 10 + digit_value c) n cs \<and>
     foldl (\<lambda>n c. n * 10 + digit_value c) n cs \<le> maxVal \<or> cs = [] \<and> v = n"
proof (induction cs arbitrary: n)
  case Nil
  then show ?case by auto
next
  case (Cons c cs)
  show ?case
  proof (cases "is_digit c")
    case False
    then show ?thesis by simp
  next
    case True
    let ?n1 = "n * 10 + digit_value c"
    show ?thesis
    proof (cases "?n1 > maxVal")
      case over: True
      have "?n1 \<le> foldl (\<lambda>n c. n * 10 + digit_value c) ?n1 cs" by (rule foldl_digits_mono)
      with over have "\<not> foldl (\<lambda>n c. n * 10 + digit_value c) ?n1 cs \<le> maxVal" by linarith
      with True over show ?thesis by (simp add: Let_def)
    next
      case False
      have "?n1 \<le> foldl (\<lambda>n c. n * 10 + digit_value c) ?n1 cs" by (rule foldl_digits_mono)
      with True False Cons.IH [of ?n1] show ?thesis by (auto simp: Let_def)
    qed
  qed
qed

lemma ParseUint_loop_err:
  "ParseUint_loop maxVal cs n = (v, Some err) \<Longrightarrow> err = ErrSyntax \<or> err = ErrRange \<and> v = maxVal"
  by (induction cs arbitrary: n) (auto simp: Let_def split: if_splits)

lemma ParseUint_64:
  "ParseUint ds 64 = (un, None) \<longleftrightarrow>
     ds \<noteq> [] \<and> list_all is_digit ds \<and> un = decimal_value ds \<and> decimal_value ds < 2 ^ 64"
proof -
  have "(decimal_value ds \<le> 2 ^ 64 - 1) = (decimal_value ds < 2 ^ 64)" by auto
  then show ?thesis
    by (auto simp: ParseUint_def ParseUint_loop_ok decimal_value_def)
qed

lemma ParseUint_64_err:
  "ParseUint ds 64 = (un, Some err) \<Longrightarrow> err = ErrSyntax \<or> err = ErrRange \<and> un = 2 ^ 64 - 1"
  by (auto simp: ParseUint_def dest: ParseUint_loop_err split: if_splits)

lemma ParseInt_unsigned:
  assumes "c \<noteq> CHR ''-''"
  shows "ParseInt (c # cs) 64 = (i, None) \<longleftrightarrow>
     (\<exists>un. ParseUint (if c = CHR ''+'' then cs else c # cs) 64 = (un, None) \<and>
           un < 2 ^ 63 \<and> i = int un)"
proof (cases "ParseUint (if c = CHR ''+'' then cs else c # cs) 64")
  case (Pair un err)
  show ?thesis
  proof (cases err)
    case None
    with Pair assms show ?thesis by (auto simp: ParseInt_def Let_def)
  next
    case (Some e)
    with Pair have "e = ErrSyntax \<or> e = ErrRange \<and> un = 2 ^ 64 - 1"
      using ParseUint_64_err by blast
    with Pair Some assms show ?thesis by (auto simp: ParseInt_def Let_def)
  qed
qed

lemma ParseInt_negative:
  "ParseInt (CHR ''-'' # cs) 64 = (i, None) \<longleftrightarrow>
     (\<exists>un. ParseUint cs 64 = (un, None) \<and> un \<le> 2 ^ 63 \<and> i = - int un)"
proof (cases "ParseUint cs 64")
  case (Pair un err)
  show ?thesis
  proof (cases err)
    case None
    with Pair show ?thesis by (auto simp: ParseInt_def Let_def)
  next
    case (Some e)
    with Pair have "e = ErrSyntax \<or> e = ErrRange \<and> un = 2 ^ 64 - 1"
      using ParseUint_64_err by blast
    with Pair Some show ?thesis by (auto simp: ParseInt_def Let_def)
  qed
qed

lemma ParseInt_decimal_int64: "ParseInt s 64 = (i, None) \<longleftrightarrow> decimal_int64 s = Some i"
proof (cases s)
  case Nil
  then show ?thesis by (simp add: ParseInt_def decimal_int64_def)
next
  case (Cons c cs)
  show ?thesis
  proof (cases "c = CHR ''-''")
    case True
    have "(\<exists>un. ParseUint cs 64 = (un, None) \<and> un \<le> 2 ^ 63 \<and> i = - int un) \<longleftrightarrow>
          decimal_int64 (CHR ''-'' # cs) = Some i"
      by (auto simp: ParseUint_64 decimal_int64_def Let_def)
    then show ?thesis by (simp add: Cons True ParseInt_negative)
  next
    case False
    have "(\<exists>un. ParseUint (if c = CHR ''+'' then cs else c # cs) 64 = (un, None) \<and>
           un < 2 ^ 63 \<and> i = int un) \<longleftrightarrow> decimal_int64 (c # cs) = Some i"
      using False by (auto simp: ParseUint_64 decimal_int64_def Let_def)
    then show ?thesis by (simp add: Cons ParseInt_unsigned [OF False])
  qed
qed

lemma CustomStringNumberParser_64:
  "CustomStringNumberParser pf s 64 fb fo =
     (if s = [] then VString s
      else
        (case decimal_int64 s of
           Some i \<Rightarrow> VInt64 (word_of_int i)
         | None \<Rightarrow>
             (case pf s fb of
                (f, Some err) \<Rightarrow> VString s
              | (f, None) \<Rightarrow>
                  if fo \<and> (f = PosInf \<or> f = NegInf \<or> f = NaN) then VString s
                  else VFloat64 f)))"
proof (cases "ParseInt s 64")
  case (Pair i err)
  show ?thesis
  proof (cases err)
    case None
    with Pair have "decimal_int64 s = Some i" by (simp add: ParseInt_decimal_int64)
    with Pair None show ?thesis by (simp add: CustomStringNumberParser_def)
  next
    case (Some e)
    have "decimal_int64 s = None"
    proof (cases "decimal_int64 s")
      case (Some j)
      then have "ParseInt s 64 = (j, None)" by (simp add: ParseInt_decimal_int64)
      with Pair \<open>err = Some e\<close> show ?thesis by simp
    qed simp
    with Pair Some show ?thesis
      by (auto simp: CustomStringNumberParser_def IsInf_def IsNaN_def split: prod.splits option.splits)
  qed
qed

lemma decimal_int64_sint:
  "decimal_int64 s = Some i \<Longrightarrow> sint (word_of_int i :: 64 word) = i"
proof -
  assume "decimal_int64 s = Some i"
  then have "- (2 ^ 63) \<le> i" "i < 2 ^ 63"
    by (auto simp: decimal_int64_def Let_def split: if_splits)
  then show ?thesis
    by (simp add: signed_of_int signed_take_bit_int_eq_self)
qed

lemma decimal_int64_examples:
  "decimal_int64 ''123'' = Some 123"
  "decimal_int64 ''2.5'' = None"
  "decimal_int64 ''1E-05'' = None"
  "decimal_int64 ''NaN'' = None"
  "decimal_int64 ''Infinity'' = None"
  "decimal_int64 ''-Inf'' = None"
  by (simp_all add: decimal_int64_def decimal_value_def is_digit_def digit_value_def Let_def)

section \<open>Lists: convert every element, then select\<close>

text \<open>
  C1. For every list \<open>xs\<close> (a \<^verbatim>\<open>[]interface{}\<close>) and every transformer that
  \<open>NewConfigurableTransformer\<close> builds: when the transformer returns \<open>ys\<close> on the elements
  of \<open>xs\<close>, one by one, it returns on the list the elements of \<open>ys\<close> that the element
  selector keeps, in their order (\<open>filter\<close>); so the selector sees the converted
  elements, and first, last and neighbouring elements are removed alike. The transformer
  never returns an error, and it panics on the list when it panics on an element.
  The nil removal of elements takes \<open>[nil, 1, "s", nil]\<close> to \<open>[1, "s"]\<close>.
\<close>

theorem transform_list_two_passes:
  "(list_all2 (\<lambda>x y. NewConfigurableTransformer s f c es kv x = Return y None) xs ys \<longrightarrow>
      NewConfigurableTransformer s f c es kv (VSlice (Some xs)) =
        Return (VSlice (Some (filter (case es of None \<Rightarrow> (\<lambda>element. True) | Some es' \<Rightarrow> es') ys))) None)
   \<and> NewConfigurableTransformer s f c es kv x \<noteq> Return w (Some err)
   \<and> (list_ex (\<lambda>x. \<exists>p. NewConfigurableTransformer s f c es kv x = Panic p) xs \<longrightarrow>
      (\<exists>p. NewConfigurableTransformer s f c es kv (VSlice (Some xs)) = Panic p))
   \<and> NilRemovalTransformer_Transform
        \<lparr>RemoveNilKeys = False, RemoveNilValues = False, RemoveNilElements = True\<rparr>
        (VSlice (Some [VNil, VInt 1, VString ''s'', VNil])) =
      Return (VSlice (Some [VInt 1, VString ''s''])) None"
proof (intro conjI impI)
  assume all: "list_all2 (\<lambda>x y. NewConfigurableTransformer s f c es kv x = Return y None) xs ys"
  show "NewConfigurableTransformer s f c es kv (VSlice (Some xs)) =
        Return (VSlice (Some (filter (case es of None \<Rightarrow> (\<lambda>element. True) | Some es' \<Rightarrow> es') ys))) None"
  proof (cases s f c es kv rule: NewConfigurableTransformer_cases)
    case nop
    from all have "list_all2 (\<lambda>x y. NopTransformer_Transform x = Return y None) xs ys"
      by (simp only: nop(6))
    then have "ys = xs"
      by (induction xs ys rule: list_all2_induct) (simp_all add: NopTransformer_Transform_def)
    then show ?thesis
      unfolding nop(6) by (simp add: nop(4) NopTransformer_Transform_def)
  next
    case (calling t)
    from all have "convert_elements (transformInterface t) xs = Return ys None"
      unfolding calling by (rule convert_elements_list_all2)
    then show ?thesis
      unfolding calling(1) transformInterface_VSlice transformSlice_eq
      by (simp add: calling)
  qed
next
  show "NewConfigurableTransformer s f c es kv x \<noteq> Return w (Some err)"
    by (cases s f c es kv rule: NewConfigurableTransformer_cases)
      (simp_all add: NopTransformer_Transform_def transformInterface_no_error)
next
  assume "list_ex (\<lambda>x. \<exists>p. NewConfigurableTransformer s f c es kv x = Panic p) xs"
  then obtain x p where x: "x \<in> set xs" "NewConfigurableTransformer s f c es kv x = Panic p"
    by (auto simp: list_ex_iff)
  show "\<exists>p. NewConfigurableTransformer s f c es kv (VSlice (Some xs)) = Panic p"
  proof (cases s f c es kv rule: NewConfigurableTransformer_cases)
    case nop
    with x show ?thesis by (simp add: NopTransformer_Transform_def)
  next
    case (calling t)
    have "\<exists>q. convert_elements (transformInterface t) xs = Panic q"
      by (rule convert_elements_panic [where x = x and p = p])
        (use x calling in \<open>simp_all add: transformInterface_no_error\<close>)
    then show ?thesis
      unfolding calling(1) transformInterface_VSlice transformSlice_eq by auto
  qed
next
  show "NilRemovalTransformer_Transform
        \<lparr>RemoveNilKeys = False, RemoveNilValues = False, RemoveNilElements = True\<rparr>
        (VSlice (Some [VNil, VInt 1, VString ''s'', VNil])) =
      Return (VSlice (Some [VInt 1, VString ''s''])) None"
    by (simp add: NilRemovalTransformer_Transform_def NewConfigurableTransformer_def
        callingTransformer_Transform_eq transformInterface_VSlice transformSlice_eq
        NonNilElementSelector_def isNil_def)
qed

theorem transform_list_two_passes_witness:
  "NewConfigurableTransformer None None None (Some NonNilElementSelector) None
     (VSlice (Some [VNil, VNil, VInt 7, VNil, VString ''a'', VNil])) =
     Return (VSlice (Some [VInt 7, VString ''a''])) None
   \<and> (\<exists>p. NewConfigurableTransformer None None None (Some NonNilElementSelector) None
         (VSlice (Some [VInt 7, VStrSlice (Some [''a''])])) = Panic p)"
proof
  let ?tr = "NewConfigurableTransformer None None None (Some NonNilElementSelector) None"
  have tr: "?tr = transformInterface
      \<lparr> stringTransformer = (\<lambda>s. VString s), float64Transformer = (\<lambda>f. VFloat64 f),
        complex128Transformer = (\<lambda>(re, im). VComplex128 re im),
        sliceSelector = NonNilElementSelector, kvSelector = (\<lambda>key value. True) \<rparr>"
    by (simp add: NewConfigurableTransformer_def callingTransformer_Transform_eq)
  have "list_all2 (\<lambda>x y. ?tr x = Return y None)
          [VNil, VNil, VInt 7, VNil, VString ''a'', VNil]
          [VNil, VNil, VInt 7, VNil, VString ''a'', VNil]"
    unfolding tr by (simp add: isNil_def)
  from transform_list_two_passes [THEN conjunct1, rule_format, OF this]
  show "?tr (VSlice (Some [VNil, VNil, VInt 7, VNil, VString ''a'', VNil])) =
     Return (VSlice (Some [VInt 7, VString ''a''])) None"
    by (simp add: NonNilElementSelector_def isNil_def)
  have "list_ex (\<lambda>x. \<exists>p. ?tr x = Panic p) [VInt 7, VStrSlice (Some [''a''])]"
    unfolding tr by (simp add: isNil_def)
  from transform_list_two_passes [THEN conjunct2, THEN conjunct2, THEN conjunct1, rule_format, OF this]
  show "\<exists>p. ?tr (VSlice (Some [VInt 7, VStrSlice (Some [''a''])])) = Panic p" .
qed

section \<open>Mappings: a converted value that is nil deletes the entry\<close>

text \<open>
  C2. The claim has the first pass replace the value of every entry with a non-nil value
  and the second pass remove the entries that the pair selector rejects, and no others.
  The code deletes an entry in the first pass when the converter returns the nil
  interface for its value: with a string converter that returns nil and the selector
  that keeps everything, the map \<open>{"a": "x"}\<close> comes back empty, not as \<open>{"a": nil}\<close>.
\<close>

theorem converter_result_nil_deletes_entry:
  "NewConfigurableTransformer (Some (\<lambda>s. VNil)) None None None None
     (VMap (Some [(VString ''a'', VString ''x'')])) = Return (VMap (Some [])) None"
  by (simp add: NewConfigurableTransformer_def callingTransformer_Transform_def isNil_def
      transformMap.simps(1) transformMap_convert_def)

text \<open>
  The examples of the claim hold: on \<open>{nil: 1, 2: nil, "3": 4}\<close> the removal of nil keys,
  of nil values and of both.
\<close>

lemma map_nil_removal_examples:
  "NilRemovalTransformer_Transform
     \<lparr>RemoveNilKeys = True, RemoveNilValues = False, RemoveNilElements = False\<rparr>
     (VMap (Some [(VNil, VInt 1), (VInt 2, VNil), (VString ''3'', VInt 4)])) =
   Return (VMap (Some [(VInt 2, VNil), (VString ''3'', VInt 4)])) None"
  "NilRemovalTransformer_Transform
     \<lparr>RemoveNilKeys = False, RemoveNilValues = True, RemoveNilElements = False\<rparr>
     (VMap (Some [(VNil, VInt 1), (VInt 2, VNil), (VString ''3'', VInt 4)])) =
   Return (VMap (Some [(VNil, VInt 1), (VString ''3'', VInt 4)])) None"
  "NilRemovalTransformer_Transform
     \<lparr>RemoveNilKeys = True, RemoveNilValues = True, RemoveNilElements = False\<rparr>
     (VMap (Some [(VNil, VInt 1), (VInt 2, VNil), (VString ''3'', VInt 4)])) =
   Return (VMap (Some [(VString ''3'', VInt 4)])) None"
proof -
  let ?v = "VMap (Some [(VNil, VInt 1), (VInt 2, VNil), (VString ''3'', VInt 4)])"
  have wf: "wellformed ?v" "generic ?v" by simp_all
  have walk: "transformInterface (identity_converters es kv) ?v =
              Return (nil_removed es kv ?v) None" for es kv
    using wf by (rule transformInterface_nil_removed)
  show "NilRemovalTransformer_Transform
     \<lparr>RemoveNilKeys = True, RemoveNilValues = False, RemoveNilElements = False\<rparr> ?v =
   Return (VMap (Some [(VInt 2, VNil), (VString ''3'', VInt 4)])) None"
    by (subst NilRemovalTransformer_Transform_on, simp, subst walk)
      (simp add: element_selector_of_def pair_selector_of_def NonNilKeySelector_def isNil_def)
  show "NilRemovalTransformer_Transform
     \<lparr>RemoveNilKeys = False, RemoveNilValues = True, RemoveNilElements = False\<rparr> ?v =
   Return (VMap (Some [(VNil, VInt 1), (VString ''3'', VInt 4)])) None"
    by (subst NilRemovalTransformer_Transform_on, simp, subst walk)
      (simp add: element_selector_of_def pair_selector_of_def NonNilValueSelector_def isNil_def)
  show "NilRemovalTransformer_Transform
     \<lparr>RemoveNilKeys = True, RemoveNilValues = True, RemoveNilElements = False\<rparr> ?v =
   Return (VMap (Some [(VString ''3'', VInt 4)])) None"
    by (subst NilRemovalTransformer_Transform_on, simp, subst walk)
      (simp add: element_selector_of_def pair_selector_of_def NonNilKeyValueSelector_def isNil_def)
qed

section \<open>The number parser: integer, float or the string itself\<close>

text \<open>
  C3. The parser returns a value for every string and both settings of the flag: the
  empty string itself; for a string that is a decimal integer of 64 bits, the integer
  (the 64-bit word holds it without wrapping); otherwise the float that the library parses, but the string itself when the library
  returns an error or, in finite-only mode, an infinity or NaN. So \<open>"123"\<close> is the integer
  123; \<open>"2.5"\<close> and \<open>"1E-05"\<close> are the floats that the library reads; \<open>"NaN"\<close>, \<open>"Infinity"\<close>
  and \<open>"-Inf"\<close> stay strings in finite-only mode.
\<close>

theorem number_parser_policy:
  "CustomStringNumberParser pf [] ib fb fo = VString []
   \<and> CustomStringNumberParser pf s 64 fb fo =
       (if s = [] then VString s
        else
          (case decimal_int64 s of
             Some i \<Rightarrow> VInt64 (word_of_int i)
           | None \<Rightarrow>
               (case pf s fb of
                  (f, Some err) \<Rightarrow> VString s
                | (f, None) \<Rightarrow>
                    if fo \<and> (f = PosInf \<or> f = NegInf \<or> f = NaN) then VString s
                    else VFloat64 f)))
   \<and> (decimal_int64 s = Some i \<longrightarrow> sint (word_of_int i :: 64 word) = i)
   \<and> StringToFiniteNumberParser pf ''123'' = VInt64 123
   \<and> (pf ''2.5'' 64 = (Finite (5 / 2), None) \<longrightarrow>
        StringToFiniteNumberParser pf ''2.5'' = VFloat64 (Finite (5 / 2)))
   \<and> (pf ''1E-05'' 64 = (Finite q, None) \<longrightarrow>
        StringToFiniteNumberParser pf ''1E-05'' = VFloat64 (Finite q))
   \<and> (pf ''NaN'' 64 = (NaN, None) \<longrightarrow> StringToFiniteNumberParser pf ''NaN'' = VString ''NaN'')
   \<and> (pf ''Infinity'' 64 = (PosInf, None) \<longrightarrow>
        StringToFiniteNumberParser pf ''Infinity'' = VString ''Infinity'')
   \<and> (pf ''-Inf'' 64 = (NegInf, None) \<longrightarrow>
        StringToFiniteNumberParser pf ''-Inf'' = VString ''-Inf'')"
proof (intro conjI impI)
  show "CustomStringNumberParser pf [] ib fb fo = VString []"
    by (simp add: CustomStringNumberParser_def)
  show "CustomStringNumberParser pf s 64 fb fo =
       (if s = [] then VString s
        else
          (case decimal_int64 s of
             Some i \<Rightarrow> VInt64 (word_of_int i)
           | None \<Rightarrow>
               (case pf s fb of
                  (f, Some err) \<Rightarrow> VString s
                | (f, None) \<Rightarrow>
                    if fo \<and> (f = PosInf \<or> f = NegInf \<or> f = NaN) then VString s
                    else VFloat64 f)))"
    by (rule CustomStringNumberParser_64)
  show "StringToFiniteNumberParser pf ''123'' = VInt64 123"
    by (simp add: StringToFiniteNumberParser_def CustomStringNumberParser_64
        decimal_int64_examples)
next
  assume "decimal_int64 s = Some i"
  then show "sint (word_of_int i :: 64 word) = i"
    by (rule decimal_int64_sint)
next
  assume "pf ''2.5'' 64 = (Finite (5 / 2), None)"
  then show "StringToFiniteNumberParser pf ''2.5'' = VFloat64 (Finite (5 / 2))"
    by (simp add: StringToFiniteNumberParser_def CustomStringNumberParser_64
        decimal_int64_examples)
next
  assume "pf ''1E-05'' 64 = (Finite q, None)"
  then show "StringToFiniteNumberParser pf ''1E-05'' = VFloat64 (Finite q)"
    by (simp add: StringToFiniteNumberParser_def CustomStringNumberParser_64
        decimal_int64_examples)
next
  assume "pf ''NaN'' 64 = (NaN, None)"
  then show "StringToFiniteNumberParser pf ''NaN'' = VString ''NaN''"
    by (simp add: StringToFiniteNumberParser_def CustomStringNumberParser_64
        decimal_int64_examples)
next
  assume "pf ''Infinity'' 64 = (PosInf, None)"
  then show "StringToFiniteNumberParser pf ''Infinity'' = VString ''Infinity''"
    by (simp add: StringToFiniteNumberParser_def CustomStringNumberParser_64
        decimal_int64_examples)
next
  assume "pf ''-Inf'' 64 = (NegInf, None)"
  then show "StringToFiniteNumberParser pf ''-Inf'' = VString ''-Inf''"
    by (simp add: StringToFiniteNumberParser_def CustomStringNumberParser_64
        decimal_int64_examples)
qed

theorem number_parser_policy_witness:
  "StringToFiniteNumberParser sample_ParseFloat ''2.5'' = VFloat64 (Finite (5 / 2))
   \<and> StringToFiniteNumberParser sample_ParseFloat ''1E-05'' =
       VFloat64 (Finite (5902958103587057 / 590295810358705651712))
   \<and> StringToFiniteNumberParser sample_ParseFloat ''NaN'' = VString ''NaN''
   \<and> StringToFiniteNumberParser sample_ParseFloat ''Infinity'' = VString ''Infinity''
   \<and> StringToFiniteNumberParser sample_ParseFloat ''-Inf'' = VString ''-Inf''
   \<and> sint (word_of_int (- 9223372036854775808) :: 64 word) = - 9223372036854775808"
proof -
  note p = number_parser_policy [where pf = sample_ParseFloat
      and q = "5902958103587057 / 590295810358705651712"
      and s = "''-9223372036854775808''" and i = "- 9223372036854775808"]
  have h0: "decimal_int64 ''-9223372036854775808'' = Some (- 9223372036854775808)"
    by (simp add: decimal_int64_def decimal_value_def is_digit_def digit_value_def Let_def)
  have h1: "sample_ParseFloat ''2.5'' 64 = (Finite (5 / 2), None)"
    and h2: "sample_ParseFloat ''1E-05'' 64 =
             (Finite (5902958103587057 / 590295810358705651712), None)"
    and h3: "sample_ParseFloat ''NaN'' 64 = (NaN, None)"
    and h4: "sample_ParseFloat ''Infinity'' 64 = (PosInf, None)"
    and h5: "sample_ParseFloat ''-Inf'' 64 = (NegInf, None)"
    by (simp_all add: sample_ParseFloat_def)
  from p h0 h1 h2 h3 h4 h5 show ?thesis by blast
qed

section \<open>Nil removal: idempotent where it returns, but it does not return everywhere\<close>

text \<open>
  On the values on which the walk returns (by \<open>transformInterface_returns_iff_generic\<close>
  these are the \<open>generic\<close> ones among the \<open>wellformed\<close> values), for every setting of
  the three toggles, the nil-removal transformer returns a value \<open>w\<close> without an error, and
  applied to \<open>w\<close> it returns \<open>w\<close> again without an error.
\<close>

lemma nil_removal_idempotent_where_it_returns:
  assumes "wellformed v" and "generic v"
  shows "\<exists>w. NilRemovalTransformer_Transform t v = Return w None
           \<and> NilRemovalTransformer_Transform t w = Return w None"
proof (cases "RemoveNilKeys t \<or> RemoveNilValues t \<or> RemoveNilElements t")
  case False
  then show ?thesis by (simp add: NilRemovalTransformer_Transform_off)
next
  case True
  let ?es = "element_selector_of t" and ?kv = "pair_selector_of t"
  let ?w = "nil_removed ?es ?kv v"
  have first: "NilRemovalTransformer_Transform t v = Return ?w None"
    using assms by (simp add: NilRemovalTransformer_Transform_on [OF True]
        transformInterface_nil_removed)
  have "wellformed ?w" "generic ?w"
    using assms by (simp_all add: wellformed_nil_removed generic_nil_removed)
  then have "NilRemovalTransformer_Transform t ?w = Return (nil_removed ?es ?kv ?w) None"
    by (simp add: NilRemovalTransformer_Transform_on [OF True] transformInterface_nil_removed)
  then have "NilRemovalTransformer_Transform t ?w = Return ?w None"
    by (simp only: nil_removed_idem)
  with first show ?thesis by blast
qed

lemma nil_removal_idempotent_example:
  "\<exists>w. NilRemovalTransformer_Transform
          \<lparr>RemoveNilKeys = True, RemoveNilValues = True, RemoveNilElements = True\<rparr>
          (VMap (Some [(VString ''a'', VNil), (VNil, VString ''b''),
                       (VString ''c'', VSlice (Some [VNil, VInt 1]))])) = Return w None
       \<and> NilRemovalTransformer_Transform
          \<lparr>RemoveNilKeys = True, RemoveNilValues = True, RemoveNilElements = True\<rparr> w =
          Return w None"
  by (rule nil_removal_idempotent_where_it_returns) simp_all

text \<open>The recursive removal of the tests: \<open>{"a": nil, nil: "b", "c": [nil, 1]}\<close> becomes \<open>{"c": [1]}\<close>.\<close>

lemma recursive_nil_removal:
  "NilRemovalTransformer_Transform
     \<lparr>RemoveNilKeys = True, RemoveNilValues = True, RemoveNilElements = True\<rparr>
     (VMap (Some [(VString ''a'', VNil), (VNil, VString ''b''),
                  (VString ''c'', VSlice (Some [VNil, VInt 1]))])) =
   Return (VMap (Some [(VString ''c'', VSlice (Some [VInt 1]))])) None"
proof -
  let ?t = "\<lparr>RemoveNilKeys = True, RemoveNilValues = True, RemoveNilElements = True\<rparr>"
  let ?v = "VMap (Some [(VString ''a'', VNil), (VNil, VString ''b''),
                  (VString ''c'', VSlice (Some [VNil, VInt 1]))])"
  have "NilRemovalTransformer_Transform ?t ?v =
        transformInterface (identity_converters (element_selector_of ?t) (pair_selector_of ?t)) ?v"
    by (rule NilRemovalTransformer_Transform_on) simp
  also have "\<dots> = Return (nil_removed (element_selector_of ?t) (pair_selector_of ?t) ?v) None"
    by (rule transformInterface_nil_removed) simp_all
  also have "nil_removed (element_selector_of ?t) (pair_selector_of ?t) ?v =
             VMap (Some [(VString ''c'', VSlice (Some [VInt 1]))])"
    by (simp add: element_selector_of_def pair_selector_of_def NonNilElementSelector_def
        NonNilKeyValueSelector_def isNil_def)
  finally show ?thesis .
qed

text \<open>
  A map with a NaN key (the YAML document \<open>{.nan: 1}\<close>) is another value on which the
  transformer does not return: \<^verbatim>\<open>MapIndex\<close> does not find the key that \<^verbatim>\<open>MapKeys\<close> returned.
\<close>

lemma nil_removal_panics_on_nan_key:
  "NilRemovalTransformer_Transform
     \<lparr>RemoveNilKeys = False, RemoveNilValues = True, RemoveNilElements = False\<rparr>
     (VMap (Some [(VFloat64 NaN, VInt 1)])) = Panic ZeroValuePanic"
  by (simp add: NilRemovalTransformer_Transform_def NewConfigurableTransformer_def
      callingTransformer_Transform_def isNil_def transformMap.simps(1) transformMap_convert_def
      float_equal_def)

text \<open>
  C4. The claim has the nil-removal transformer return, without an error, on every value
  tree, twice with the same result. The TOML document \<^verbatim>\<open>[[t]]\<close> \<^verbatim>\<open>a = 1\<close> decodes to a map whose
  value is an array of tables, a \<^verbatim>\<open>[]map[string]interface{}\<close>. On this tree the first
  application does not return: it panics in the type assertion of \<open>transformInterface\<close>, for
  every setting of the toggles but the one with all three off. This is the defect of C6,
  met below the root of the tree.
\<close>

theorem nil_removal_panics_inside_the_tree:
  "(RemoveNilKeys t \<or> RemoveNilValues t \<or> RemoveNilElements t) =
     (NilRemovalTransformer_Transform t
        (VMap (Some [(VString ''t'', VMapSlice (Some [Some [(VString ''a'', VInt64 1)]]))])) =
      Panic TypeAssertionPanic)
   \<and> NilRemovalTransformer_Transform
       \<lparr>RemoveNilKeys = False, RemoveNilValues = True, RemoveNilElements = False\<rparr>
       (VMap (Some [(VString ''t'', VMapSlice (Some [Some [(VString ''a'', VInt64 1)]]))])) =
     Panic TypeAssertionPanic
   \<and> NilRemovalTransformer_Transform
       \<lparr>RemoveNilKeys = False, RemoveNilValues = True, RemoveNilElements = False\<rparr>
       (VMap (Some [(VString ''t'', VStrSlice (Some [''x'']))])) = Panic TypeAssertionPanic"
proof -
  let ?v = "VMap (Some [(VString ''t'', VMapSlice (Some [Some [(VString ''a'', VInt64 1)]]))])"
  let ?v' = "VMap (Some [(VString ''t'', VStrSlice (Some [''x'']))])"
  let ?tv = "\<lparr>RemoveNilKeys = False, RemoveNilValues = True, RemoveNilElements = False\<rparr>"
  have walk: "transformInterface u ?v = Panic TypeAssertionPanic"
    "transformInterface u ?v' = Panic TypeAssertionPanic" for u
    by (simp_all add: isNil_def transformMap.simps(1) transformMap_convert_def)
  have on: "NilRemovalTransformer_Transform t ?v = Panic TypeAssertionPanic"
    "NilRemovalTransformer_Transform t ?v' = Panic TypeAssertionPanic"
    if "RemoveNilKeys t \<or> RemoveNilValues t \<or> RemoveNilElements t" for t
    by (simp_all only: NilRemovalTransformer_Transform_on [OF that] walk)
  have off: "NilRemovalTransformer_Transform t ?v = Return ?v None"
    if "\<not> (RemoveNilKeys t \<or> RemoveNilValues t \<or> RemoveNilElements t)" for t
    using that by (simp add: NilRemovalTransformer_Transform_off)
  show ?thesis
    using on(1) [of t] off [of t] on [of ?tv]
    by (cases "RemoveNilKeys t \<or> RemoveNilValues t \<or> RemoveNilElements t") simp_all
qed

section \<open>The pipeline runs from left to right and stops at the first error\<close>

text \<open>
  C5. The pipeline runs its stages from left to right: a pipeline \<open>ts @ us\<close> runs \<open>ts\<close> and,
  when \<open>ts\<close> ends without an error, runs \<open>us\<close> on the value and the state that \<open>ts\<close> left;
  nil slots change nothing, and \<open>NewMultiTransformer\<close>, which drops them, builds the same
  pipeline; after a prefix without error the next stage gets the
  prefix's value; and when that stage returns an error, the pipeline returns the stage's
  value and error and the stage's state, whatever stages follow. The pipeline without
  stages returns its input.
\<close>

theorem pipeline_left_to_right:
  "TransformerPipeline_Transform (filter (\<lambda>t. t \<noteq> None) ts) v \<sigma> =
     TransformerPipeline_Transform ts v \<sigma>
   \<and> NewMultiTransformer ts v \<sigma> = TransformerPipeline_Transform ts v \<sigma>
   \<and> TransformerPipeline_Transform (ts @ us) v \<sigma> =
       (case TransformerPipeline_Transform ts v \<sigma> of
          (Return w None, \<sigma>') \<Rightarrow> TransformerPipeline_Transform us w \<sigma>'
        | r \<Rightarrow> r)
   \<and> (TransformerPipeline_Transform ts v \<sigma> = (Return w None, \<sigma>') \<longrightarrow>
        TransformerPipeline_Transform (ts @ [Some t]) v \<sigma> = t w \<sigma>')
   \<and> (TransformerPipeline_Transform ts v \<sigma> = (Return w None, \<sigma>') \<and>
        t w \<sigma>' = (Return v' (Some err), \<sigma>'') \<longrightarrow>
        TransformerPipeline_Transform (ts @ Some t # us) v \<sigma> = (Return v' (Some err), \<sigma>''))
   \<and> TransformerPipeline_Transform [] v \<sigma> = (Return v None, \<sigma>)"
proof (intro conjI impI)
  show "TransformerPipeline_Transform (filter (\<lambda>t. t \<noteq> None) ts) v \<sigma> =
     TransformerPipeline_Transform ts v \<sigma>"
    by (rule pipeline_skip_nil)
  show "NewMultiTransformer ts v \<sigma> = TransformerPipeline_Transform ts v \<sigma>"
    by (simp add: NewMultiTransformer_eq)
  show "TransformerPipeline_Transform (ts @ us) v \<sigma> =
       (case TransformerPipeline_Transform ts v \<sigma> of
          (Return w None, \<sigma>') \<Rightarrow> TransformerPipeline_Transform us w \<sigma>'
        | r \<Rightarrow> r)"
    by (rule pipeline_append)
next
  assume "TransformerPipeline_Transform ts v \<sigma> = (Return w None, \<sigma>')"
  then show "TransformerPipeline_Transform (ts @ [Some t]) v \<sigma> = t w \<sigma>'"
    by (cases "t w \<sigma>'") (auto simp: pipeline_append split: outcome.splits option.splits)
next
  assume "TransformerPipeline_Transform ts v \<sigma> = (Return w None, \<sigma>') \<and>
        t w \<sigma>' = (Return v' (Some err), \<sigma>'')"
  then show "TransformerPipeline_Transform (ts @ Some t # us) v \<sigma> = (Return v' (Some err), \<sigma>'')"
    by (simp add: pipeline_append)
next
  show "TransformerPipeline_Transform [] v \<sigma> = (Return v None, \<sigma>)"
    by simp
qed

theorem pipeline_left_to_right_witness:
  "TransformerPipeline_Transform
     [Some (logging_stage ''A'' (\<lambda>v. Return (VSlice (Some [v])) None)), None,
      Some (logging_stage ''B'' (\<lambda>v. Return (VSlice (Some [v, v])) (Some (Errorf ''failed'')))),
      Some (logging_stage ''C'' (\<lambda>v. Return VNil None))]
     (VInt 1) [] =
   (Return (VSlice (Some [VSlice (Some [VInt 1]), VSlice (Some [VInt 1])])) (Some (Errorf ''failed'')),
    [''A'', ''B''])"
proof -
  let ?A = "logging_stage ''A'' (\<lambda>v. Return (VSlice (Some [v])) None)"
  let ?B = "logging_stage ''B'' (\<lambda>v. Return (VSlice (Some [v, v])) (Some (Errorf ''failed'')))"
  let ?C = "logging_stage ''C'' (\<lambda>v. Return VNil None)"
  have a: "TransformerPipeline_Transform [Some ?A, None] (VInt 1) [] =
           (Return (VSlice (Some [VInt 1])) None, [''A''])"
    by (simp add: logging_stage_def)
  have b: "?B (VSlice (Some [VInt 1])) [''A''] =
           (Return (VSlice (Some [VSlice (Some [VInt 1]), VSlice (Some [VInt 1])]))
              (Some (Errorf ''failed'')), [''A'', ''B''])"
    by (simp add: logging_stage_def)
  from pipeline_left_to_right [where ts = "[Some ?A, None]" and t = ?B and us = "[Some ?C]",
      THEN conjunct2, THEN conjunct2, THEN conjunct2, THEN conjunct2, THEN conjunct1,
      rule_format, OF conjI, OF a b]
  show ?thesis by simp
qed

section \<open>A list of strings makes the walk panic\<close>

text \<open>
  C6. The claim has \<open>Transform\<close> return a value or an error on every input, also on the
  \<^verbatim>\<open>[]string\<close> lists of the text adapters. On the list \<open>["abc"]\<close> of type \<^verbatim>\<open>[]string\<close> the
  nil removal of elements panics in the type assertion of \<open>transformInterface\<close>. The text
  adapter without a field delimiter decodes the input \<open>abc|\<close> to this list, and the
  transformer that \<open>NewConfigurableTransformer\<close> builds from any string converter panics
  on the list in the same way.
\<close>

theorem typed_slice_panics:
  "NilRemovalTransformer_Transform
     \<lparr>RemoveNilKeys = False, RemoveNilValues = False, RemoveNilElements = True\<rparr>
     (VStrSlice (Some [''abc''])) = Panic TypeAssertionPanic
   \<and> TextFormat_Unmarshal scanner \<lparr>RecordDelimiter = ''|'', FieldDelimiter = []\<rparr>
       (''abc|'', None) = Return (VStrSlice (Some [''abc''])) None
   \<and> NewConfigurableTransformer (Some string_converter) None None None None
       (VStrSlice (Some [''abc''])) = Panic TypeAssertionPanic"
  by (simp add: NilRemovalTransformer_Transform_def NewConfigurableTransformer_def
      callingTransformer_Transform_def isNil_def TextFormat_Unmarshal_def
      TextFormat_records_explicit Split.simps)

section \<open>The nullness test\<close>

text \<open>
  C7. The nullness test is true for the nil value and for a list or mapping without
  storage; it is false for a list or mapping that has storage, also an empty one, and
  for every boolean, integer, float and string.
\<close>

theorem isNil_classification:
  "isNil VNil
   \<and> isNil (VSlice None) \<and> isNil (VStrSlice None) \<and> isNil (VMap None)
   \<and> \<not> isNil (VSlice (Some xs)) \<and> \<not> isNil (VStrSlice (Some ss)) \<and> \<not> isNil (VMap (Some m))
   \<and> \<not> isNil (VSlice (Some [])) \<and> \<not> isNil (VMap (Some []))
   \<and> \<not> isNil (VBool b) \<and> \<not> isNil (VInt i) \<and> \<not> isNil (VInt64 j)
   \<and> \<not> isNil (VFloat64 f) \<and> \<not> isNil (VFloat32 g) \<and> \<not> isNil (VString s)"
  by (simp add: isNil_def)

section \<open>Every failure of the convert command exits with 4\<close>

text \<open>
  C8. The claim has a decode failure of \<open>convert\<close> exit with 1 and an encode failure with
  2. The action passes \<open>exitTransformError\<close> for every error of \<open>ConvertFile\<close>: both
  failures exit with 4.
\<close>

theorem convert_exits_with_transform_error:
  "exit_status (convert_Action os [] (\<lambda>reader. Return data (Some err)) transformer [] outputFormat) = 4
   \<and> exit_status (convert_Action os [] (\<lambda>reader. Return data None) None []
        (\<lambda>v writer. Return () (Some err))) = 4
   \<and> exitInputError = 1 \<and> exitOutputError = 2 \<and> exitTransformError = 4"
  by (simp add: convert_Action_def ConvertFile_def ConvertStream_def exit_def Let_def
      exitInputError_def exitOutputError_def exitTransformError_def)

section \<open>Documents of a YAML stream\<close>

text \<open>
  C9. A stream whose documents all decode yields the list of its documents in stream
  order, an empty document as the nil value; a stream of exactly one document yields
  that document itself. Four documents of which the third is empty give a list of four
  elements with the nil value in the third place.
\<close>

theorem yaml_documents_flattened:
  "YAMLFormat_Unmarshal (map Decoded ds) =
     (if length ds = 1 then Return (document_of (ds ! 0)) None
      else Return (VSlice (Some (map document_of ds))) None)
   \<and> YAMLFormat_Unmarshal [Decoded (Some a), Decoded (Some b), Decoded None, Decoded (Some c)] =
       Return (VSlice (Some [a, b, VNil, c])) None
   \<and> YAMLFormat_Unmarshal [Decoded (Some a)] = Return a None"
  by (simp add: YAMLFormat_Unmarshal_def YAMLFormat_decode_loop_all nth_map)

section \<open>Records of delimited text\<close>

text \<open>
  C10, as amended. With a record delimiter of one byte the records are the split of the
  input at the delimiter, without its last record when the input is empty or ends with
  the delimiter, and complete otherwise; with a field delimiter every record is split
  into its fields. For every non-empty record delimiter the last record of the split is
  dropped exactly when it is empty, and a non-empty input that does not end with the
  delimiter loses no record. Nothing else is removed.
\<close>

theorem text_records_drop_last_empty:
  "TextFormat_Unmarshal scanner \<lparr>RecordDelimiter = [d], FieldDelimiter = fd\<rparr> (s, None) =
     (let records = (if s = [] \<or> suffix [d] s then butlast (Split s [d]) else Split s [d])
      in if fd = [] then Return (VStrSlice (Some records)) None
         else Return (VSlice (Some
                (map (\<lambda>record. VSlice (Some (map VString (Split record fd)))) records))) None)
   \<and> TextFormat_records scanner \<lparr>RecordDelimiter = c # cs, FieldDelimiter = fd\<rparr> s =
       (Some (if last (Split s (c # cs)) = [] then butlast (Split s (c # cs))
              else Split s (c # cs)), None)
   \<and> (s \<noteq> [] \<and> \<not> suffix (c # cs) s \<longrightarrow>
        TextFormat_records scanner \<lparr>RecordDelimiter = c # cs, FieldDelimiter = fd\<rparr> s =
          (Some (Split s (c # cs)), None))"
proof (intro conjI impI)
  have "(s = [] \<or> suffix [d] s) \<longleftrightarrow> last (Split s [d]) = []"
    by (auto simp: suffix_single last_Split_char)
  then show "TextFormat_Unmarshal scanner \<lparr>RecordDelimiter = [d], FieldDelimiter = fd\<rparr> (s, None) =
     (let records = (if s = [] \<or> suffix [d] s then butlast (Split s [d]) else Split s [d])
      in if fd = [] then Return (VStrSlice (Some records)) None
         else Return (VSlice (Some
                (map (\<lambda>record. VSlice (Some (map VString (Split record fd)))) records))) None)"
    by (simp add: TextFormat_Unmarshal_def TextFormat_records_explicit readSeparatedStrings_def
        Let_def)
  show "TextFormat_records scanner \<lparr>RecordDelimiter = c # cs, FieldDelimiter = fd\<rparr> s =
       (Some (if last (Split s (c # cs)) = [] then butlast (Split s (c # cs))
              else Split s (c # cs)), None)"
    by (rule TextFormat_records_explicit)
next
  assume "s \<noteq> [] \<and> \<not> suffix (c # cs) s"
  then have "last (Split s (c # cs)) \<noteq> []"
    using last_Split_empty [of "c # cs" s] by auto
  then show "TextFormat_records scanner \<lparr>RecordDelimiter = c # cs, FieldDelimiter = fd\<rparr> s =
          (Some (Split s (c # cs)), None)"
    by (simp add: TextFormat_records_explicit)
qed

theorem text_records_drop_last_empty_witness:
  "TextFormat_records (\<lambda>data. ([], None)) \<lparr>RecordDelimiter = ''||'', FieldDelimiter = []\<rparr>
     ''a||b|'' = (Some [''a'', ''b|''], None)"
proof -
  have "''a||b|'' \<noteq> [] \<and> \<not> suffix ''||'' ''a||b|''"
    by (simp add: suffix_def)
  from text_records_drop_last_empty [where scanner = "\<lambda>data. ([], None)" and fd = "[]",
      THEN conjunct2, THEN conjunct2, rule_format, OF this]
  show ?thesis by (simp add: Split.simps)
qed

text \<open>
  The claim as stated fails on the empty input: it does not end with the delimiter, its
  split is the one empty record, and the adapter returns no record.
\<close>

theorem empty_input_loses_its_record:
  "\<not> (TextFormat_Unmarshal (\<lambda>data. ([], None))
        \<lparr>RecordDelimiter = ''|'', FieldDelimiter = []\<rparr> ([], None) =
       Return (VStrSlice (Some
         (if suffix ''|'' [] then butlast (Split [] ''|'') else Split [] ''|''))) None)"
  by (simp add: TextFormat_Unmarshal_def TextFormat_records_def readSeparatedStrings_def
      Split.simps [of "[]"])

text \<open>Empty records inside the input and a second empty record at the end stay.\<close>

lemma text_records_examples:
  "TextFormat_records scanner \<lparr>RecordDelimiter = ''|'', FieldDelimiter = fd\<rparr> ''a|b|'' =
     (Some [''a'', ''b''], None)"
  "TextFormat_records scanner \<lparr>RecordDelimiter = ''|'', FieldDelimiter = fd\<rparr> ''a||'' =
     (Some [''a'', []], None)"
  "TextFormat_records scanner \<lparr>RecordDelimiter = ''|'', FieldDelimiter = fd\<rparr> ''|a||b'' =
     (Some [[], ''a'', [], ''b''], None)"
  "TextFormat_records scanner \<lparr>RecordDelimiter = ''|'', FieldDelimiter = fd\<rparr> [] = (Some [], None)"
  by (simp_all add: TextFormat_records_explicit Split.simps)

end
